(* ===== verification/GoPrelude.thy ===== *)
theory GoPrelude
  imports "HOL-Library.Word" "HOL-Library.Monad_Syntax"
begin

text \<open>
  The fragment of Go and of its standard library that the components share.

  A Go function that can panic is a function into \<^typ>\<open>'a option\<close>: \<^term>\<open>None\<close> is the
  run-time panic (index or slice bounds out of range, nil dereference, \<^verbatim>\<open>make\<close> with a
  negative length, \<^verbatim>\<open>log.Fatal\<close>), which halts the firmware. A Go function that returns an
  \<^verbatim>\<open>error\<close> beside its result returns a pair whose second part is a
  \<^typ>\<open>'e option\<close>, \<^term>\<open>None\<close> being Go's \<^verbatim>\<open>nil\<close>. A nil slice and an empty slice
  are both the empty list: no code of the repository tells them apart.

  The theory holds the byte-level operations (bounds-checked indexing and slicing, \<^verbatim>\<open>copy\<close>,
  \<^verbatim>\<open>encoding/binary\<close> in both byte orders, \<^verbatim>\<open>math/big\<close> byte strings, the
  \<^verbatim>\<open>%X\<close>, \<^verbatim>\<open>%x\<close> and \<^verbatim>\<open>%d\<close> verbs), the \<^verbatim>\<open>fixed_codec\<close> interface of fixed-width
  encodings with its four instances, and the collections of simplification rules the component
  theories extend.
\<close>

unbundle bit_operations_syntax

section \<open>Types and errors\<close>

type_synonym byte = "8 word"
type_synonym bytes = "byte list"
type_synonym u16 = "16 word"
type_synonym u32 = "32 word"
type_synonym u64 = "64 word"

text \<open>Errors are compared with \<^verbatim>\<open>io.EOF\<close> in the code, and otherwise only printed.\<close>

datatype goerr = GoErr string | EOF | UnexpectedEOF

fun error_text :: "goerr \<Rightarrow> string" where
  "error_text (GoErr s) = s"
| "error_text EOF = ''EOF''"
| "error_text UnexpectedEOF = ''unexpected EOF''"

text \<open>\<^verbatim>\<open>fmt.Errorf("<what>, %v", err)\<close>.\<close>

definition wrap_err :: "string \<Rightarrow> goerr \<Rightarrow> goerr" where
  "wrap_err what e = GoErr (what @ '', '' @ error_text e)"

definition str_bytes :: "string \<Rightarrow> bytes" where
  "str_bytes s = map of_char s"

definition bytes_str :: "bytes \<Rightarrow> string" where
  "bytes_str bs = map (\<lambda>b. char_of (unat b)) bs"

named_theorems frame_simps \<open>which part of a state an operation leaves alone\<close>
named_theorems step_defs \<open>the handlers of a component, unfolded together\<close>

section \<open>Slices\<close>

definition idx :: "'a list \<Rightarrow> nat \<Rightarrow> 'a option" where
  "idx xs i = (if i < length xs then Some (xs ! i) else None)"

text \<open>
  \<^verbatim>\<open>s[lo:hi]\<close>. Go checks \<^verbatim>\<open>hi\<close> against the capacity; every use in the repository has
  \<^verbatim>\<open>hi\<close> at most the length, where the two checks agree.
\<close>

definition subslice :: "'a list \<Rightarrow> nat \<Rightarrow> nat \<Rightarrow> 'a list option" where
  "subslice xs lo hi =
     (if lo \<le> hi \<and> hi \<le> length xs then Some (take (hi - lo) (drop lo xs)) else None)"

definition slice_from :: "'a list \<Rightarrow> nat \<Rightarrow> 'a list option" where
  "slice_from xs lo = (if lo \<le> length xs then Some (drop lo xs) else None)"

text \<open>\<^verbatim>\<open>copy(dst, src)\<close> overwrites as much of \<^verbatim>\<open>dst\<close> as \<^verbatim>\<open>src\<close> covers.\<close>

definition copy_into :: "'a list \<Rightarrow> 'a list \<Rightarrow> 'a list" where
  "copy_into dst src = take (length dst) src @ drop (length src) dst"

definition copy_at :: "'a list \<Rightarrow> nat \<Rightarrow> 'a list \<Rightarrow> 'a list option" where
  "copy_at dst off src =
     (if off \<le> length dst then Some (take off dst @ copy_into (drop off dst) src) else None)"

lemma idx_eq_Some_iff: "idx xs i = Some x \<longleftrightarrow> i < length xs \<and> xs ! i = x"
  by (auto simp: idx_def)

lemma idx_Cons_0 [simp]: "idx (x # xs) 0 = Some x"
  by (simp add: idx_def)

lemma idx_Cons_Suc [simp]: "idx (x # xs) (Suc i) = idx xs i"
  by (simp add: idx_def)

lemma idx_Nil [simp]: "idx [] i = None"
  by (simp add: idx_def)

lemma idx_append [simp]: "idx (xs @ ys) (length xs + i) = idx ys i"
  by (simp add: idx_def nth_append)

lemma idx_append_0 [simp]: "idx (xs @ ys) (length xs) = idx ys 0"
  using idx_append [of xs ys 0] by simp

lemma subslice_append [simp]:
  "subslice (xs @ ys) (length xs + i) (length xs + j) = subslice ys i j"
  by (simp add: subslice_def)

lemma slice_from_0 [simp]: "slice_from xs 0 = Some xs"
  by (simp add: slice_from_def)

lemma subslice_eq_Some_iff:
  "subslice xs lo hi = Some ys \<longleftrightarrow> lo \<le> hi \<and> hi \<le> length xs \<and> ys = take (hi - lo) (drop lo xs)"
  by (auto simp: subslice_def)

lemma subslice_append_mid:
  "subslice (pre @ ys @ post) (length pre) (length pre + length ys) = Some ys"
  by (simp add: subslice_def)

lemma length_copy_into [simp]: "length (copy_into dst src) = length dst"
  by (simp add: copy_into_def min_def)

lemma copy_into_same_length [simp]: "length src = length dst \<Longrightarrow> copy_into dst src = src"
  by (simp add: copy_into_def)

lemma length_copy_at: "copy_at dst off src = Some r \<Longrightarrow> length r = length dst"
  by (auto simp: copy_at_def split: if_splits)

section \<open>encoding/binary\<close>

definition be_put16 :: "u16 \<Rightarrow> bytes" where
  "be_put16 w = [ucast (drop_bit 8 w), ucast w]"

definition be_put32 :: "u32 \<Rightarrow> bytes" where
  "be_put32 w = [ucast (drop_bit 24 w), ucast (drop_bit 16 w), ucast (drop_bit 8 w), ucast w]"

definition le_put16 :: "u16 \<Rightarrow> bytes" where
  "le_put16 w = [ucast w, ucast (drop_bit 8 w)]"

definition le_put32 :: "u32 \<Rightarrow> bytes" where
  "le_put32 w = [ucast w, ucast (drop_bit 8 w), ucast (drop_bit 16 w), ucast (drop_bit 24 w)]"

definition join16 :: "byte \<Rightarrow> byte \<Rightarrow> u16" where
  "join16 b0 b1 = ucast b0 OR push_bit 8 (ucast b1)"

definition join32 :: "byte \<Rightarrow> byte \<Rightarrow> byte \<Rightarrow> byte \<Rightarrow> u32" where
  "join32 b0 b1 b2 b3 =
     ucast b0 OR push_bit 8 (ucast b1) OR push_bit 16 (ucast b2) OR push_bit 24 (ucast b3)"

text \<open>The readers panic on a slice that is too short and ignore what follows.\<close>

fun be_uint16 :: "bytes \<Rightarrow> u16 option" where
  "be_uint16 (b1 # b0 # _) = Some (join16 b0 b1)"
| "be_uint16 _ = None"

fun be_uint32 :: "bytes \<Rightarrow> u32 option" where
  "be_uint32 (b3 # b2 # b1 # b0 # _) = Some (join32 b0 b1 b2 b3)"
| "be_uint32 _ = None"

fun le_uint16 :: "bytes \<Rightarrow> u16 option" where
  "le_uint16 (b0 # b1 # _) = Some (join16 b0 b1)"
| "le_uint16 _ = None"

fun le_uint32 :: "bytes \<Rightarrow> u32 option" where
  "le_uint32 (b0 # b1 # b2 # b3 # _) = Some (join32 b0 b1 b2 b3)"
| "le_uint32 _ = None"

lemma byte_bit_high [simp]: "8 \<le> n \<Longrightarrow> \<not> bit (b :: byte) n"
  by (auto dest: bit_imp_le_length)

lemma join16_split [simp]: "join16 (ucast w) (ucast (drop_bit 8 w)) = w"
  unfolding join16_def by (rule bit_word_eqI) (auto simp: bit_simps)

lemma join32_split [simp]:
  "join32 (ucast w) (ucast (drop_bit 8 w)) (ucast (drop_bit 16 w)) (ucast (drop_bit 24 w)) = w"
proof (rule bit_word_eqI)
  fix n
  assume "n < LENGTH(32)"
  then have "n < 8 \<or> 8 \<le> n \<and> n < 16 \<or> 16 \<le> n \<and> n < 24 \<or> 24 \<le> n \<and> n < 32"
    by auto
  then show "bit (join32 (ucast w) (ucast (drop_bit 8 w)) (ucast (drop_bit 16 w))
      (ucast (drop_bit 24 w))) n = bit w n"
    unfolding join32_def by (elim disjE) (auto simp: bit_simps)
qed

lemma split_join16 [simp]:
  "ucast (join16 b0 b1) = b0"
  "ucast (drop_bit 8 (join16 b0 b1)) = b1"
  unfolding join16_def by (rule bit_word_eqI, auto simp: bit_simps)+

lemma split_join32 [simp]:
  "ucast (join32 b0 b1 b2 b3) = b0"
  "ucast (drop_bit 8 (join32 b0 b1 b2 b3)) = b1"
  "ucast (drop_bit 16 (join32 b0 b1 b2 b3)) = b2"
  "ucast (drop_bit 24 (join32 b0 b1 b2 b3)) = b3"
  unfolding join32_def by (rule bit_word_eqI, auto simp: bit_simps)+

section \<open>Fixed-width codecs\<close>

text \<open>
  The contract of a fixed-width encoding: \<open>enc\<close> always writes \<open>width\<close> bytes, \<open>dec\<close> reads
  exactly those back whatever follows them, fails exactly on an input that is too short, and
  every successful read is the encoding of its result. It is what the TLV, CCID and counter code
  rely on; the integer encodings below provide it, and so do the CCID message headers.
\<close>

locale fixed_codec =
  fixes width :: nat
    and enc :: "'a \<Rightarrow> bytes"
    and dec :: "bytes \<Rightarrow> 'a option"
  assumes length_enc: "length (enc x) = width"
    and dec_enc: "dec (enc x @ ys) = Some x"
    and dec_short: "length xs < width \<Longrightarrow> dec xs = None"
    and enc_dec: "dec xs = Some x \<Longrightarrow> enc x = take width xs"
    and dec_long: "width \<le> length xs \<Longrightarrow> \<exists>x. dec xs = Some x"
begin

lemma dec_enc_exact: "dec (enc x) = Some x"
  using dec_enc [of x "[]"] by simp

lemma enc_inject: "enc x = enc y \<longleftrightarrow> x = y"
  by (metis dec_enc_exact option.inject)

lemma enc_append_inject: "enc x @ xs = enc y @ ys \<longleftrightarrow> x = y \<and> xs = ys"
  by (simp add: length_enc append_eq_append_conv enc_inject)

lemma dec_total_iff: "dec xs \<noteq> None \<longleftrightarrow> width \<le> length xs"
  by (metis dec_long dec_short not_less option.distinct(1))

lemma dec_decompose: "dec xs = Some x \<Longrightarrow> xs = enc x @ drop width xs"
  using enc_dec [of xs x] by simp

lemma dec_unique_iff: "dec xs = Some x \<longleftrightarrow> width \<le> length xs \<and> take width xs = enc x"
proof
  assume "dec xs = Some x"
  then show "width \<le> length xs \<and> take width xs = enc x"
    by (metis dec_short enc_dec not_less option.distinct(1))
next
  assume "width \<le> length xs \<and> take width xs = enc x"
  then have "xs = enc x @ drop width xs"
    by (metis append_take_drop_id)
  then show "dec xs = Some x"
    by (metis dec_enc)
qed

end

lemma length_2_conv: "2 \<le> length xs \<Longrightarrow> \<exists>a b ys. xs = a # b # ys"
  by (metis One_nat_def Suc_1 Suc_le_length_iff)

lemma length_4_conv: "4 \<le> length xs \<Longrightarrow> \<exists>a b c d ys. xs = a # b # c # d # ys"
  by (metis Suc_le_length_iff eval_nat_numeral(2) numeral_3_eq_3 semiring_norm(26,27,28))

interpretation be16: fixed_codec 2 be_put16 be_uint16
proof
  fix xs :: bytes
  show "be_uint16 (be_put16 x @ ys) = Some x" for x ys
    by (simp add: be_put16_def)
  show "length xs < 2 \<Longrightarrow> be_uint16 xs = None"
    by (cases xs rule: be_uint16.cases) auto
  show "be_uint16 xs = Some x \<Longrightarrow> be_put16 x = take 2 xs" for x
    by (cases xs rule: be_uint16.cases) (auto simp: be_put16_def)
  show "2 \<le> length xs \<Longrightarrow> \<exists>x. be_uint16 xs = Some x"
    using length_2_conv [of xs] by auto
qed (simp add: be_put16_def)

interpretation le16: fixed_codec 2 le_put16 le_uint16
proof
  fix xs :: bytes
  show "le_uint16 (le_put16 x @ ys) = Some x" for x ys
    by (simp add: le_put16_def)
  show "length xs < 2 \<Longrightarrow> le_uint16 xs = None"
    by (cases xs rule: le_uint16.cases) auto
  show "le_uint16 xs = Some x \<Longrightarrow> le_put16 x = take 2 xs" for x
    by (cases xs rule: le_uint16.cases) (auto simp: le_put16_def)
  show "2 \<le> length xs \<Longrightarrow> \<exists>x. le_uint16 xs = Some x"
    using length_2_conv [of xs] by auto
qed (simp add: le_put16_def)

interpretation be32: fixed_codec 4 be_put32 be_uint32
proof
  fix xs :: bytes
  show "be_uint32 (be_put32 x @ ys) = Some x" for x ys
    by (simp add: be_put32_def)
  show "length xs < 4 \<Longrightarrow> be_uint32 xs = None"
    by (cases xs rule: be_uint32.cases) auto
  show "be_uint32 xs = Some x \<Longrightarrow> be_put32 x = take 4 xs" for x
    by (cases xs rule: be_uint32.cases) (auto simp: be_put32_def)
  show "4 \<le> length xs \<Longrightarrow> \<exists>x. be_uint32 xs = Some x"
    using length_4_conv [of xs] by auto
qed (simp add: be_put32_def)

interpretation le32: fixed_codec 4 le_put32 le_uint32
proof
  fix xs :: bytes
  show "le_uint32 (le_put32 x @ ys) = Some x" for x ys
    by (simp add: le_put32_def)
  show "length xs < 4 \<Longrightarrow> le_uint32 xs = None"
    by (cases xs rule: le_uint32.cases) auto
  show "le_uint32 xs = Some x \<Longrightarrow> le_put32 x = take 4 xs" for x
    by (cases xs rule: le_uint32.cases) (auto simp: le_put32_def)
  show "4 \<le> length xs \<Longrightarrow> \<exists>x. le_uint32 xs = Some x"
    using length_4_conv [of xs] by auto
qed (simp add: le_put32_def)

lemmas length_put [simp] = be16.length_enc le16.length_enc be32.length_enc le32.length_enc

section \<open>math/big and fmt\<close>

text \<open>\<^verbatim>\<open>(*big.Int).Bytes\<close>: big-endian, without leading zeros; and \<^verbatim>\<open>BitLen\<close>.\<close>

fun nat_bytes :: "nat \<Rightarrow> bytes" where
  "nat_bytes n = (if n = 0 then [] else nat_bytes (n div 256) @ [of_nat (n mod 256)])"

fun bit_len :: "nat \<Rightarrow> nat" where
  "bit_len n = (if n = 0 then 0 else Suc (bit_len (n div 2)))"

declare nat_bytes.simps [simp del] bit_len.simps [simp del]

lemma nat_bytes_0 [simp]: "nat_bytes 0 = []"
  by (simp add: nat_bytes.simps)

lemma bit_len_0 [simp]: "bit_len 0 = 0"
  by (simp add: bit_len.simps)

text \<open>\<^verbatim>\<open>SetBytes\<close>: the number a big-endian byte string denotes.\<close>

definition be_nat :: "bytes \<Rightarrow> nat" where
  "be_nat bs = foldl (\<lambda>n b. 256 * n + unat b) 0 bs"

lemma be_nat_snoc [simp]: "be_nat [] = 0" "be_nat (bs @ [b]) = 256 * be_nat bs + unat b"
  by (simp_all add: be_nat_def)

lemma be_nat_zeros: "be_nat (replicate n 0 @ bs) = be_nat bs"
  by (induction n) (simp_all add: be_nat_def)

lemma be_nat_nat_bytes [simp]: "be_nat (nat_bytes n) = n"
proof (induction n rule: nat_bytes.induct)
  case (1 n)
  have "unat (of_nat (n mod 256) :: byte) = n mod 256"
    by (simp add: unat_of_nat)
  then show ?case
    using 1 by (subst nat_bytes.simps) auto
qed

lemma length_nat_bytes: "n < 256 ^ k \<Longrightarrow> length (nat_bytes n) \<le> k"
proof (induction k arbitrary: n)
  case (Suc k)
  then have "n div 256 < 256 ^ k"
    by (simp add: div_less_iff_less_mult mult.commute)
  then show ?case
    using Suc.IH [of "n div 256"] by (subst nat_bytes.simps) simp
qed simp

definition hex_digits_upper :: string where
  "hex_digits_upper = ''0123456789ABCDEF''"

definition hex_digits_lower :: string where
  "hex_digits_lower = ''0123456789abcdef''"

definition hex_byte :: "string \<Rightarrow> byte \<Rightarrow> string" where
  "hex_byte ds b = [ds ! unat (drop_bit 4 b), ds ! unat (b AND 15)]"

definition fmt_X :: "bytes \<Rightarrow> string" where
  "fmt_X bs = concat (map (hex_byte hex_digits_upper) bs)"

definition fmt_x :: "bytes \<Rightarrow> string" where
  "fmt_x bs = concat (map (hex_byte hex_digits_lower) bs)"

fun fmt_d :: "nat \<Rightarrow> string" where
  "fmt_d n = (if n < 10 then [char_of (48 + n)] else fmt_d (n div 10) @ [char_of (48 + n mod 10)])"

declare fmt_d.simps [simp del]

definition fmt_bool :: "bool \<Rightarrow> string" where
  "fmt_bool b = (if b then ''true'' else ''false'')"

lemma length_fmt_X [simp]: "length (fmt_X bs) = 2 * length bs"
  by (induction bs) (simp_all add: fmt_X_def hex_byte_def)

definition newline :: string where
  "newline = [char_of (10 :: nat)]"

end
