(* ===== verification/Cipher.thy ===== *)
theory Cipher
  imports GoPrelude
begin

text \<open>
  The symmetric cryptography of the Go standard library that \<^verbatim>\<open>internal/snvs\<close> and
  \<^verbatim>\<open>internal/icc/crypto_imx6.go\<close> use: \<^verbatim>\<open>crypto/cipher\<close> CTR and CBC modes and
  \<^verbatim>\<open>crypto/hmac\<close> are written out; the AES block function and SHA-256 they are built on are
  parameters, the fields of \<open>cryptolib\<close>. \<open>cipher_ok\<close> is what is assumed of those:
  AES permutes 16-byte blocks and SHA-256 digests have 32 bytes.
\<close>

record cryptolib =
  AesEnc :: "bytes \<Rightarrow> bytes \<Rightarrow> bytes"
  AesDec :: "bytes \<Rightarrow> bytes \<Rightarrow> bytes"
  Sha256 :: "bytes \<Rightarrow> bytes"

definition cipher_ok :: "('x) cryptolib_scheme \<Rightarrow> bool" where
  "cipher_ok L \<longleftrightarrow>
     (\<forall>k b. length b = 16 \<longrightarrow> length (AesEnc L k b) = 16 \<and> AesDec L k (AesEnc L k b) = b) \<and>
     (\<forall>k b. length b = 16 \<longrightarrow> length (AesDec L k b) = 16 \<and> AesEnc L k (AesDec L k b) = b) \<and>
     (\<forall>m. length (Sha256 L m) = 32)"

lemma cipher_okD:
  assumes "cipher_ok L"
  shows "length b = 16 \<Longrightarrow> length (AesEnc L k b) = 16"
    and "length b = 16 \<Longrightarrow> AesDec L k (AesEnc L k b) = b"
    and "length b = 16 \<Longrightarrow> length (AesDec L k b) = 16"
    and "length b = 16 \<Longrightarrow> AesEnc L k (AesDec L k b) = b"
    and "length (Sha256 L m) = 32"
  using assms by (simp_all add: cipher_ok_def)

abbreviation (input) aes_BlockSize :: nat where
  "aes_BlockSize \<equiv> 16"

text \<open>\<^verbatim>\<open>aes.NewCipher\<close>: only the key size can be wrong.\<close>

definition NewCipher :: "bytes \<Rightarrow> goerr option" where
  "NewCipher key =
     (if length key \<in> {16, 24, 32} then None
      else Some (GoErr (''crypto/aes: invalid key size '' @ fmt_d (length key))))"

section \<open>Exclusive or\<close>

definition xor_bytes :: "bytes \<Rightarrow> bytes \<Rightarrow> bytes" where
  "xor_bytes xs ys = map2 (XOR) xs ys"

lemma length_xor_bytes [simp]: "length (xor_bytes xs ys) = min (length xs) (length ys)"
  by (simp add: xor_bytes_def)

lemma xor_bytes_cancel:
  "length xs \<le> length ys \<Longrightarrow> xor_bytes (xor_bytes xs ys) ys = xs"
  by (rule nth_equalityI) (auto simp: xor_bytes_def xor.assoc)

section \<open>CTR mode\<close>

fun inc_le :: "bytes \<Rightarrow> bytes" where
  "inc_le [] = []"
| "inc_le (b # bs) = (if b + 1 = 0 then 0 # inc_le bs else (b + 1) # bs)"

text \<open>The counter block is one big-endian integer, incremented with carry.\<close>

definition ctr_inc :: "bytes \<Rightarrow> bytes" where
  "ctr_inc bs = rev (inc_le (rev bs))"

fun ctr_blocks :: "(bytes \<Rightarrow> bytes) \<Rightarrow> bytes \<Rightarrow> nat \<Rightarrow> bytes" where
  "ctr_blocks E ctr 0 = []"
| "ctr_blocks E ctr (Suc n) = E ctr @ ctr_blocks E (ctr_inc ctr) n"

definition keystream :: "('x) cryptolib_scheme \<Rightarrow> bytes \<Rightarrow> bytes \<Rightarrow> nat \<Rightarrow> bytes" where
  "keystream L key iv n = take n (ctr_blocks (AesEnc L key) iv ((n + 15) div 16))"

text \<open>\<^verbatim>\<open>cipher.NewCTR(block, iv).XORKeyStream(dst, src)\<close> of a fresh stream.\<close>

definition XORKeyStream :: "('x) cryptolib_scheme \<Rightarrow> bytes \<Rightarrow> bytes \<Rightarrow> bytes \<Rightarrow> bytes" where
  "XORKeyStream L key iv src = xor_bytes src (keystream L key iv (length src))"

lemma length_inc_le [simp]: "length (inc_le bs) = length bs"
  by (induction bs) auto

lemma length_ctr_inc [simp]: "length (ctr_inc bs) = length bs"
  by (simp add: ctr_inc_def)

lemma length_ctr_blocks:
  assumes "cipher_ok L" and "length iv = 16"
  shows "length (ctr_blocks (AesEnc L key) iv n) = 16 * n"
  using assms(2) by (induction n arbitrary: iv) (simp_all add: cipher_okD(1) [OF assms(1)])

lemma length_keystream:
  assumes "cipher_ok L" and "length iv = 16"
  shows "length (keystream L key iv n) = n"
proof -
  have "n \<le> 16 * ((n + 15) div 16)"
    by linarith
  then show ?thesis
    by (simp add: keystream_def length_ctr_blocks [OF assms])
qed

lemma length_XORKeyStream:
  assumes "cipher_ok L" and "length iv = 16"
  shows "length (XORKeyStream L key iv src) = length src"
  by (simp add: XORKeyStream_def length_keystream [OF assms])

lemma XORKeyStream_involution:
  assumes "cipher_ok L" and "length iv = 16"
  shows "XORKeyStream L key iv (XORKeyStream L key iv src) = src"
  using length_XORKeyStream [OF assms, of key src]
  by (simp add: XORKeyStream_def xor_bytes_cancel length_keystream [OF assms])

section \<open>CBC mode\<close>

text \<open>\<^verbatim>\<open>CryptBlocks\<close> on a whole number of blocks; the callers check that first.\<close>

function cbc_encrypt :: "(bytes \<Rightarrow> bytes) \<Rightarrow> bytes \<Rightarrow> bytes \<Rightarrow> bytes" where
  "cbc_encrypt E iv xs =
     (if xs = [] then []
      else let c = E (xor_bytes (take 16 xs) iv) in c @ cbc_encrypt E c (drop 16 xs))"
  by pat_completeness auto
termination
  by (relation "measure (\<lambda>(E, iv, xs). length xs)") auto

function cbc_decrypt :: "(bytes \<Rightarrow> bytes) \<Rightarrow> bytes \<Rightarrow> bytes \<Rightarrow> bytes" where
  "cbc_decrypt D iv xs =
     (if xs = [] then []
      else xor_bytes (D (take 16 xs)) iv @ cbc_decrypt D (take 16 xs) (drop 16 xs))"
  by pat_completeness auto
termination
  by (relation "measure (\<lambda>(D, iv, xs). length xs)") auto

declare cbc_encrypt.simps [simp del] cbc_decrypt.simps [simp del]

lemma cbc_Nil [simp]: "cbc_encrypt E iv [] = []" "cbc_decrypt D iv [] = []"
  by (simp_all add: cbc_encrypt.simps cbc_decrypt.simps)

lemma blocks_induct [consumes 1, case_names Nil Block]:
  assumes "length xs mod 16 = 0"
    and "P []"
    and "\<And>b ys. length b = 16 \<Longrightarrow> length ys mod 16 = 0 \<Longrightarrow> P ys \<Longrightarrow> P (b @ ys)"
  shows "P (xs :: bytes)"
  using assms(1)
proof (induction xs rule: length_induct)
  case (1 xs)
  show ?case
  proof (cases "xs = []")
    case False
    with "1.prems" have len: "16 \<le> length xs"
      by (cases "length xs < 16") simp_all
    then have "length (drop 16 xs) mod 16 = 0"
      using "1.prems" by (simp add: le_mod_geq)
    moreover have "length (drop 16 xs) < length xs"
      using len by simp
    ultimately have "P (take 16 xs @ drop 16 xs)"
      using "1.IH" len by (intro assms(3)) auto
    then show ?thesis
      by simp
  qed (simp add: assms(2))
qed

lemma cbc_encrypt_block:
  "length b = 16 \<Longrightarrow>
   cbc_encrypt E iv (b @ ys) = E (xor_bytes b iv) @ cbc_encrypt E (E (xor_bytes b iv)) ys"
  by (subst cbc_encrypt.simps) (auto simp: Let_def)

lemma cbc_decrypt_block:
  "length b = 16 \<Longrightarrow> cbc_decrypt D iv (b @ ys) = xor_bytes (D b) iv @ cbc_decrypt D b ys"
  by (subst cbc_decrypt.simps) auto

lemma cbc_roundtrip:
  assumes "cipher_ok L" and "length xs mod 16 = 0" and "length iv = 16"
  shows "cbc_decrypt (AesDec L k) iv (cbc_encrypt (AesEnc L k) iv xs) = xs"
  using assms(2,3)
proof (induction xs arbitrary: iv rule: blocks_induct)
  case (Block b ys)
  let ?c = "AesEnc L k (xor_bytes b iv)"
  have "length ?c = 16"
    using Block by (simp add: cipher_okD(1) [OF assms(1)])
  then show ?case
    using Block
    by (simp add: cbc_encrypt_block cbc_decrypt_block cipher_okD(2) [OF assms(1)] xor_bytes_cancel)
qed simp

lemma length_cbc_encrypt:
  assumes "cipher_ok L" and "length xs mod 16 = 0" and "length iv = 16"
  shows "length (cbc_encrypt (AesEnc L k) iv xs) = length xs"
  using assms(2,3)
  by (induction xs arbitrary: iv rule: blocks_induct)
    (simp_all add: cbc_encrypt_block cipher_okD(1) [OF assms(1)])

section \<open>HMAC-SHA256\<close>

definition hmac_block_key :: "('x) cryptolib_scheme \<Rightarrow> bytes \<Rightarrow> bytes" where
  "hmac_block_key L key =
     (let k = (if length key > 64 then Sha256 L key else key) in k @ replicate (64 - length k) 0)"

definition hmac_sha256 :: "('x) cryptolib_scheme \<Rightarrow> bytes \<Rightarrow> bytes \<Rightarrow> bytes" where
  "hmac_sha256 L key msg =
     (let k = hmac_block_key L key;
          ipad = map (\<lambda>b. b XOR 0x36) k;
          opad = map (\<lambda>b. b XOR 0x5c) k
      in Sha256 L (opad @ Sha256 L (ipad @ msg)))"

abbreviation (input) mac_Size :: nat where
  "mac_Size \<equiv> 32"

lemma length_hmac: "cipher_ok L \<Longrightarrow> length (hmac_sha256 L key msg) = 32"
  by (simp add: hmac_sha256_def Let_def cipher_okD(5))

section \<open>A concrete instance\<close>

text \<open>
  An instance of the parameters that satisfies \<open>cipher_ok\<close>, for evaluating concrete runs: the
  block function adds the first key byte to every byte of the block.
\<close>

definition demo_crypto :: cryptolib where
  "demo_crypto =
     \<lparr>AesEnc = (\<lambda>k b. map (\<lambda>x. x + hd k) b),
      AesDec = (\<lambda>k b. map (\<lambda>x. x - hd k) b),
      Sha256 = (\<lambda>m. replicate 31 0 @ [sum_list m])\<rparr>"

lemma demo_crypto_ok: "cipher_ok demo_crypto"
  by (simp add: cipher_ok_def demo_crypto_def comp_def)

end
