(* ===== verification/Snvs.thy ===== *)
theory Snvs
  imports Cipher
begin

text \<open>
  Key wrapping for data at rest, \<^verbatim>\<open>src/internal/snvs\<close>: \<open>encryptCTR\<close> and
  \<open>decryptCTR\<close> (encrypt-then-MAC), the device functions \<open>Encrypt_imx6\<close> and
  \<open>Decrypt_imx6\<close> whose key comes from the DCP, and the stubs of the other build. Every
  private key of the firmware passes through here: the OpenPGP, SSH and U2F keys bundled at
  compile time and the age identities.

  The DCP of the i.MX6ULL is a parameter (\<open>devlib\<close>): its derived key is a function of the
  diversifier, the IV and the key index. \<open>sealed_storage\<close> is the contract the clients use,
  and the CTR routines are shown to provide it.
\<close>

record devlib = cryptolib +
  Tamago :: bool
  SnvsAvailable :: bool
  DeriveKey :: "bytes \<Rightarrow> bytes \<Rightarrow> int \<Rightarrow> bytes \<times> goerr option"
  UniqueID :: bytes

section \<open>crypto.go\<close>

definition encryptCTR ::
    "('x) cryptolib_scheme \<Rightarrow> bytes \<Rightarrow> bytes \<Rightarrow> bytes \<Rightarrow> (bytes \<times> goerr option) option" where
  "encryptCTR L key iv input =
     (case NewCipher key of
        Some err \<Rightarrow> Some ([], Some err)
      | None \<Rightarrow>
          if length iv \<noteq> aes_BlockSize then None
          else
            let ct = XORKeyStream L key iv input;
                output = iv @ ct
            in Some (output @ hmac_sha256 L key (iv @ ct), None))"

definition decryptCTR ::
    "('x) cryptolib_scheme \<Rightarrow> bytes \<Rightarrow> bytes \<Rightarrow> bytes \<Rightarrow> (bytes \<times> goerr option) option" where
  "decryptCTR L key iv input =
     (case NewCipher key of
        Some err \<Rightarrow> Some ([], Some err)
      | None \<Rightarrow>
          if length input < mac_Size then Some ([], Some (GoErr ''invalid length''))
          else
            let n = length input - mac_Size;
                inputMac = drop n input
            in if inputMac \<noteq> hmac_sha256 L key (iv @ take n input)
               then Some ([], Some (GoErr ''invalid HMAC''))
               else if length iv \<noteq> aes_BlockSize then None
               else Some (XORKeyStream L key iv (take n input), None))"

section \<open>snvs.go and stubs.go\<close>

definition kdf_iv :: bytes where
  "kdf_iv = replicate aes_BlockSize 0"

definition Encrypt_imx6 ::
    "('x) devlib_scheme \<Rightarrow> bytes \<Rightarrow> bytes \<Rightarrow> bytes \<Rightarrow> (bytes \<times> goerr option) option" where
  "Encrypt_imx6 L input diversifier iv =
     (let (key, err) = DeriveKey L diversifier kdf_iv (-1)
      in case err of
           Some e \<Rightarrow> Some ([], Some e)
         | None \<Rightarrow>
             if length input < aes_BlockSize then Some ([], Some (GoErr ''invalid length''))
             else encryptCTR L key iv input)"

definition Decrypt_imx6 ::
    "('x) devlib_scheme \<Rightarrow> bytes \<Rightarrow> bytes \<Rightarrow> (bytes \<times> goerr option) option" where
  "Decrypt_imx6 L input diversifier =
     (let (key, err) = DeriveKey L diversifier kdf_iv (-1)
      in case err of
           Some e \<Rightarrow> Some ([], Some e)
         | None \<Rightarrow>
             if length input < aes_BlockSize then Some ([], Some (GoErr ''invalid length''))
             else decryptCTR L key (take aes_BlockSize input) (drop aes_BlockSize input))"

text \<open>The build without TamaGo takes the key itself; it is what \<^verbatim>\<open>bundle_keys.go\<close> calls.\<close>

definition Encrypt_stub ::
    "('x) cryptolib_scheme \<Rightarrow> bytes \<Rightarrow> bytes \<Rightarrow> bytes \<Rightarrow> (bytes \<times> goerr option) option" where
  "Encrypt_stub L input key iv =
     (if length input < aes_BlockSize then Some ([], Some (GoErr ''invalid length''))
      else encryptCTR L key iv input)"

definition Decrypt_stub :: "bytes \<Rightarrow> bytes \<Rightarrow> (bytes \<times> goerr option) option" where
  "Decrypt_stub input diversifier = Some ([], Some (GoErr ''not implemented''))"

text \<open>\<^verbatim>\<open>snvs.Decrypt\<close> as the importing packages see it, by build tag.\<close>

definition snvs_Decrypt ::
    "('x) devlib_scheme \<Rightarrow> bytes \<Rightarrow> bytes \<Rightarrow> (bytes \<times> goerr option) option" where
  "snvs_Decrypt L input diversifier =
     (if Tamago L then Decrypt_imx6 L input diversifier else Decrypt_stub input diversifier)"

section \<open>The contract of sealed storage\<close>

locale sealed_storage =
  fixes usable :: "'k \<Rightarrow> bool"
    and seal :: "'k \<Rightarrow> bytes \<Rightarrow> bytes \<Rightarrow> bytes"
    and unseal :: "'k \<Rightarrow> bytes \<Rightarrow> bytes option"
  assumes unseal_seal: "usable k \<Longrightarrow> length iv = 16 \<Longrightarrow> unseal k (seal k iv m) = Some m"
    and unseal_only: "usable k \<Longrightarrow> unseal k c = Some m \<Longrightarrow> length (take 16 c) = 16 \<and> c = seal k (take 16 c) m"
begin

lemma seal_message_inject:
  assumes "usable k" and "length iv = 16" and "length iv' = 16" and "seal k iv m = seal k iv' m'"
  shows "m = m'"
  by (metis assms option.inject unseal_seal)

lemma unseal_defined_iff:
  assumes "usable k"
  shows "unseal k c \<noteq> None \<longleftrightarrow> (\<exists>iv m. length iv = 16 \<and> c = seal k iv m)"
  using assms by (metis not_Some_eq unseal_only unseal_seal)

lemma unseal_eq_Some_iff:
  assumes "usable k"
  shows "unseal k c = Some m \<longleftrightarrow> (\<exists>iv. length iv = 16 \<and> c = seal k iv m)"
  using assms by (metis unseal_only unseal_seal)

end

text \<open>The CTR routines with a key of a legal size, seen through that contract.\<close>

definition ctr_usable :: "('x) cryptolib_scheme \<times> bytes \<Rightarrow> bool" where
  "ctr_usable k \<longleftrightarrow> cipher_ok (fst k) \<and> NewCipher (snd k) = None"

definition ctr_seal :: "('x) cryptolib_scheme \<times> bytes \<Rightarrow> bytes \<Rightarrow> bytes \<Rightarrow> bytes" where
  "ctr_seal k iv m = (case encryptCTR (fst k) (snd k) iv m of Some (out, None) \<Rightarrow> out | _ \<Rightarrow> [])"

definition ctr_unseal :: "('x) cryptolib_scheme \<times> bytes \<Rightarrow> bytes \<Rightarrow> bytes option" where
  "ctr_unseal k c =
     (if length c < aes_BlockSize then None
      else case decryptCTR (fst k) (snd k) (take aes_BlockSize c) (drop aes_BlockSize c) of
             Some (m, None) \<Rightarrow> Some m
           | _ \<Rightarrow> None)"

lemma encryptCTR_ok:
  "NewCipher key = None \<Longrightarrow> length iv = 16 \<Longrightarrow>
   encryptCTR L key iv m =
     Some (iv @ XORKeyStream L key iv m @ hmac_sha256 L key (iv @ XORKeyStream L key iv m), None)"
  by (simp add: encryptCTR_def Let_def)

lemma decryptCTR_sealed:
  assumes "cipher_ok L" and "NewCipher key = None" and "length iv = 16"
  shows "decryptCTR L key iv
      (XORKeyStream L key iv m @ hmac_sha256 L key (iv @ XORKeyStream L key iv m)) = Some (m, None)"
  using assms
  by (simp add: decryptCTR_def Let_def length_hmac XORKeyStream_involution)

lemma decryptCTR_only_sealed:
  assumes "cipher_ok L" and "length iv = 16" and "decryptCTR L key iv c = Some (m, None)"
  shows "encryptCTR L key iv m = Some (iv @ c, None)"
proof -
  from assms(3) have key: "NewCipher key = None" and len: "32 \<le> length c"
    and mac: "drop (length c - 32) c = hmac_sha256 L key (iv @ take (length c - 32) c)"
    and m: "m = XORKeyStream L key iv (take (length c - 32) c)"
    by (auto simp: decryptCTR_def Let_def split: option.splits if_splits)
  have "XORKeyStream L key iv m = take (length c - 32) c"
    by (simp add: m XORKeyStream_involution [OF assms(1,2)])
  then show ?thesis
    by (simp add: encryptCTR_ok key assms(2) flip: mac)
qed

interpretation ctr: sealed_storage ctr_usable ctr_seal ctr_unseal
proof
  fix k :: "('x) cryptolib_scheme \<times> bytes" and iv m c :: bytes
  show "ctr_unseal k (ctr_seal k iv m) = Some m" if "ctr_usable k" "length iv = 16"
    using that decryptCTR_sealed [of "fst k" "snd k" iv m]
    by (simp add: ctr_usable_def ctr_seal_def ctr_unseal_def encryptCTR_ok)
  show "length (take 16 c) = 16 \<and> c = ctr_seal k (take 16 c) m"
    if "ctr_usable k" and "ctr_unseal k c = Some m"
  proof -
    from that have len: "16 \<le> length c"
      and dec: "decryptCTR (fst k) (snd k) (take 16 c) (drop 16 c) = Some (m, None)"
      by (auto simp: ctr_unseal_def split: if_splits option.splits prod.splits)
    have "encryptCTR (fst k) (snd k) (take 16 c) m = Some (take 16 c @ drop 16 c, None)"
      using that(1) len dec by (intro decryptCTR_only_sealed) (simp_all add: ctr_usable_def)
    with len show ?thesis
      by (simp add: ctr_seal_def)
  qed
qed

section \<open>Properties\<close>

lemma Decrypt_imx6_unseal:
  assumes "DeriveKey L d kdf_iv (-1) = (key, None)"
  shows "Decrypt_imx6 L c d = Some (m, None) \<longleftrightarrow> ctr_unseal (L, key) c = Some m"
  using assms by (auto simp: Decrypt_imx6_def ctr_unseal_def split: option.splits prod.splits)

lemma Encrypt_imx6_seal:
  assumes "DeriveKey L d kdf_iv (-1) = (key, None)" and "NewCipher key = None"
    and "length iv = 16" and "16 \<le> length m"
  shows "Encrypt_imx6 L m d iv = Some (ctr_seal (L, key) iv m, None)"
  using assms by (simp add: Encrypt_imx6_def ctr_seal_def encryptCTR_ok)

lemma length_ctr_seal:
  assumes "ctr_usable k" and "length iv = 16"
  shows "length (ctr_seal k iv m) = length m + 48"
  using assms
  by (simp add: ctr_usable_def ctr_seal_def encryptCTR_ok length_XORKeyStream length_hmac)

text \<open>
  C18. What the device wraps it unwraps: \<^verbatim>\<open>Decrypt\<close> inverts \<^verbatim>\<open>Encrypt\<close> under the same
  diversifier, for every message of at least one block and every 16-byte IV, and the wrapped
  form is 48 bytes longer (IV and HMAC).
\<close>

theorem snvs_roundtrip:
  assumes "cipher_ok L" and "DeriveKey L d kdf_iv (-1) = (key, None)" and "NewCipher key = None"
    and "length iv = 16" and "16 \<le> length m"
  shows "\<exists>out. Encrypt_imx6 L m d iv = Some (out, None) \<and> Decrypt_imx6 L out d = Some (m, None)
      \<and> length out = length m + 48"
proof -
  have u: "ctr_usable (L, key)"
    using assms(1,3) by (simp add: ctr_usable_def)
  show ?thesis
    using ctr.unseal_seal [OF u assms(4), of m] length_ctr_seal [OF u assms(4), of m] assms
    by (simp add: Encrypt_imx6_seal Decrypt_imx6_unseal)
qed

text \<open>A device library for concrete runs: the DCP returns a fixed 16-byte key.\<close>

definition demo_dev :: devlib where
  "demo_dev = cryptolib.extend demo_crypto
     \<lparr>Tamago = True, SnvsAvailable = True,
      DeriveKey = (\<lambda>d iv i. (replicate 16 5, None)), UniqueID = [1, 2, 3, 4, 5, 6, 7, 8]\<rparr>"

lemma demo_dev_simps [simp]:
  "Tamago demo_dev" "SnvsAvailable demo_dev"
  "DeriveKey demo_dev d iv i = (replicate 16 5, None)"
  "NewCipher (replicate 16 b) = None"
  by (simp_all add: demo_dev_def cryptolib.defs NewCipher_def)

lemma demo_dev_ok: "cipher_ok demo_dev"
  using demo_crypto_ok by (simp add: demo_dev_def cryptolib.defs cipher_ok_def demo_crypto_def)

theorem snvs_roundtrip_witness:
  "cipher_ok demo_dev \<and> DeriveKey demo_dev [] kdf_iv (-1) = (replicate 16 5, None) \<and>
   (\<exists>out. Encrypt_imx6 demo_dev (replicate 20 9) [] (replicate 16 1) = Some (out, None) \<and>
      Decrypt_imx6 demo_dev out [] = Some (replicate 20 9, None) \<and>
      length out = length (replicate 20 (9 :: byte)) + 48)"
  using snvs_roundtrip [of demo_dev "[]" "replicate 16 5" "replicate 16 1" "replicate 20 9"]
  by (simp add: demo_dev_ok)

text \<open>
  C19. Only wrapped data is accepted: \<^verbatim>\<open>Decrypt\<close> succeeds with \<open>m\<close> exactly on the byte
  strings that wrapping \<open>m\<close> under the device key and some 16-byte IV produces. In particular no
  two messages have a common wrapping, and anything else is rejected.
\<close>

theorem snvs_decrypt_exact:
  assumes "cipher_ok L" and "DeriveKey L d kdf_iv (-1) = (key, None)" and "NewCipher key = None"
  shows "Decrypt_imx6 L c d = Some (m, None) \<longleftrightarrow>
     (\<exists>iv. length iv = 16 \<and> encryptCTR L key iv m = Some (c, None))"
proof -
  have u: "ctr_usable (L, key)"
    using assms(1,3) by (simp add: ctr_usable_def)
  have "Decrypt_imx6 L c d = Some (m, None) \<longleftrightarrow> (\<exists>iv. length iv = 16 \<and> c = ctr_seal (L, key) iv m)"
    using Decrypt_imx6_unseal [OF assms(2)] ctr.unseal_eq_Some_iff [OF u] by blast
  also have "\<dots> \<longleftrightarrow> (\<exists>iv. length iv = 16 \<and> encryptCTR L key iv m = Some (c, None))"
    by (auto simp: ctr_seal_def encryptCTR_ok assms(3))
  finally show ?thesis .
qed

theorem snvs_decrypt_exact_witness:
  "cipher_ok demo_dev \<and>
   (Decrypt_imx6 demo_dev (replicate 60 0) [] = Some ([], None) \<longleftrightarrow>
    (\<exists>iv. length iv = 16 \<and>
       encryptCTR demo_dev (replicate 16 5) iv [] = Some (replicate 60 0, None)))"
  using snvs_decrypt_exact [of demo_dev "[]" "replicate 16 5" "replicate 60 0" "[]"]
  by (simp add: demo_dev_ok)

text \<open>
  \<^verbatim>\<open>Decrypt\<close> never panics, whatever data it is given (age identities come from the
  host), and on every error it returns an empty output.
\<close>

theorem snvs_decrypt_total:
  "\<exists>out err. snvs_Decrypt L c d = Some (out, err) \<and> (err = None \<or> out = [])"
  by (auto simp: snvs_Decrypt_def Decrypt_stub_def Decrypt_imx6_def decryptCTR_def Let_def
      split: option.splits prod.splits)

end
