(* ===== verification/Apdu.thy ===== *)
theory Apdu
  imports Snvs
begin

text \<open>
  Command and response APDUs, \<^verbatim>\<open>src/internal/icc/apdu.go\<close>. The package
  \<^verbatim>\<open>github.com/hsanjuan/go-nfctype4/apdu\<close> (its structs, (un)marshalling and its table of
  status words) is a parameter, the fields \<open>apdulib\<close> adds; of its command struct the model has
  the fields the code reads, and \<open>CRest\<close> for the others.
\<close>

record rapdu =
  SW1 :: byte
  SW2 :: byte
  ResponseBody :: bytes

record capdu =
  CLA :: byte
  INS :: byte
  P1 :: byte
  P2 :: byte
  CData :: bytes
  CRest :: bytes

datatype rapdu_type = RAPDUCommandNotAllowed | RAPDUFileNotFound

record apdulib = devlib +
  NewRAPDU :: "rapdu_type \<Rightarrow> rapdu"
  Unmarshal :: "bytes \<Rightarrow> capdu \<times> goerr option"
  Marshal :: "rapdu \<Rightarrow> bytes \<times> goerr option"
  GetLe :: "capdu \<Rightarrow> int"

definition CommandNotAllowed :: "('x) apdulib_scheme \<Rightarrow> rapdu" where
  "CommandNotAllowed L = NewRAPDU L RAPDUCommandNotAllowed"

definition FileNotFound :: "('x) apdulib_scheme \<Rightarrow> rapdu" where
  "FileNotFound L = NewRAPDU L RAPDUFileNotFound"

definition CardKeyNotSupported :: rapdu where
  "CardKeyNotSupported = \<lparr>SW1 = 0x63, SW2 = 0x82, ResponseBody = []\<rparr>"

definition WrongData :: rapdu where
  "WrongData = \<lparr>SW1 = 0x6a, SW2 = 0x80, ResponseBody = []\<rparr>"

definition ReferencedDataNotFound :: rapdu where
  "ReferencedDataNotFound = \<lparr>SW1 = 0x6a, SW2 = 0x88, ResponseBody = []\<rparr>"

definition SecurityConditionNotSatisfied :: rapdu where
  "SecurityConditionNotSatisfied = \<lparr>SW1 = 0x69, SW2 = 0x82, ResponseBody = []\<rparr>"

definition UnrecoverableError :: rapdu where
  "UnrecoverableError = \<lparr>SW1 = 0x91, SW2 = 0xa1, ResponseBody = []\<rparr>"

definition CommandCompleted :: "bytes \<Rightarrow> rapdu" where
  "CommandCompleted body = \<lparr>SW1 = 0x90, SW2 = 0x00, ResponseBody = body\<rparr>"

definition VerifyFail :: "byte \<Rightarrow> rapdu" where
  "VerifyFail retries = \<lparr>SW1 = 0x63, SW2 = retries, ResponseBody = []\<rparr>"

text \<open>A response reports success exactly when its status word is 9000.\<close>

definition completed :: "rapdu \<Rightarrow> bool" where
  "completed r \<longleftrightarrow> SW1 r = 0x90 \<and> SW2 r = 0x00"

text \<open>Documented in ISO 7816-4: neither of the two library status words is 9000.\<close>

definition apdu_ok :: "('x) apdulib_scheme \<Rightarrow> bool" where
  "apdu_ok L \<longleftrightarrow> \<not> completed (CommandNotAllowed L) \<and> \<not> completed (FileNotFound L)"

lemma completed_simps [simp]:
  "completed (CommandCompleted body)"
  "\<not> completed CardKeyNotSupported"
  "\<not> completed WrongData"
  "\<not> completed ReferencedDataNotFound"
  "\<not> completed SecurityConditionNotSatisfied"
  "\<not> completed UnrecoverableError"
  "\<not> completed (VerifyFail n)"
  by (simp_all add: completed_def CommandCompleted_def CardKeyNotSupported_def WrongData_def
      ReferencedDataNotFound_def SecurityConditionNotSatisfied_def UnrecoverableError_def
      VerifyFail_def)

lemma ResponseBody_CommandCompleted [simp]: "ResponseBody (CommandCompleted body) = body"
  by (simp add: CommandCompleted_def)

lemma CommandCompleted_inject [simp]: "CommandCompleted a = CommandCompleted b \<longleftrightarrow> a = b"
  by (simp add: CommandCompleted_def)

lemma apdu_okD:
  assumes "apdu_ok L"
  shows "\<not> completed (CommandNotAllowed L)" and "\<not> completed (FileNotFound L)"
  using assms by (simp_all add: apdu_ok_def)

text \<open>What a handler returns: \<^verbatim>\<open>(rapdu *apdu.RAPDU, err error)\<close>, both possibly nil.\<close>

type_synonym reply = "rapdu option \<times> goerr option"

end
