(* ===== verification/OpenPgp.thy ===== *)
theory OpenPgp
  imports Apdu
begin

text \<open>
  OpenPGP key material, \<^verbatim>\<open>src/internal/icc/openpgp.go\<close>, with the part of
  \<^verbatim>\<open>github.com/ProtonMail/go-crypto\<close> the card uses as data types and as parameters
  (\<open>pgplib\<close>). A subkey is a cell of a heap: \<^verbatim>\<open>card.Sig\<close> and \<^verbatim>\<open>card.Dec\<close> point into
  \<^verbatim>\<open>entity.Subkeys\<close> and may be the same cell, \<^verbatim>\<open>card.Aut\<close> points to a copy of one, and
  the \<^verbatim>\<open>PrivateKey\<close> field of a cell is again a pointer, shared by a cell and its copy.
  Decryption writes through that pointer, locking replaces it, so the aliasing is observable and
  the model keeps it. Addresses are natural numbers and heaps total functions: Go pointers are
  nil or valid.
\<close>

section \<open>Data\<close>

text \<open>An elliptic-curve public key by what its accessors return.\<close>

record eckey =
  CurveName :: string
  MarshalPoint :: bytes

datatype pubmat = RsaPub nat int | EcdsaPub eckey | EcdhPub eckey | OtherPub

record pubkey =
  pub_Fingerprint :: bytes
  pub_CreationTime :: int
  pub_PubKeyAlgo :: byte
  pub_PublicKey :: pubmat

text \<open>
  The dynamic type of \<^verbatim>\<open>packet.PrivateKey.PrivateKey\<close>, with the key as opaque bytes.
  \<^verbatim>\<open>EcdsaPriv\<close> is go-crypto's \<^verbatim>\<open>openpgp/ecdsa\<close> type, the one the signing code matches,
  with the X coordinate of its public key; \<^verbatim>\<open>StdEcdsaPriv\<close> is \<^verbatim>\<open>crypto/ecdsa\<close>, the one
  \<^verbatim>\<open>rpc.go\<close> matches.
\<close>

datatype privmat = RsaPriv bytes | EcdsaPriv nat bytes | EcdhPriv bytes | StdEcdsaPriv bytes | OtherPriv

record privkey =
  pv_Fingerprint :: bytes
  pv_KeyId :: u64
  pv_CreationTime :: int
  pv_Encrypted :: bool
  pv_PrivateKey :: "privmat option"
  pv_encryptedData :: bytes

definition privkey_zero :: privkey where
  "privkey_zero = \<lparr>pv_Fingerprint = [], pv_KeyId = 0, pv_CreationTime = 0, pv_Encrypted = False,
     pv_PrivateKey = None, pv_encryptedData = []\<rparr>"

record keyflags =
  FlagsValid :: bool
  FlagSign :: bool
  FlagEncryptStorage :: bool
  FlagEncryptCommunications :: bool
  FlagAuthenticate :: bool

record subkey =
  sk_PublicKey :: "pubkey option"
  sk_PrivateKey :: "nat option"
  sk_Sig :: "keyflags option"

text \<open>What \<^verbatim>\<open>openpgp.ReadEntity\<close> parses, private keys still as values.\<close>

record parsed_subkey =
  ps_PublicKey :: "pubkey option"
  ps_PrivateKey :: "privkey option"
  ps_Sig :: "keyflags option"

record entity =
  ent_PrimaryFingerprint :: bytes
  ent_Subkeys :: "parsed_subkey list"

text \<open>The source of randomness is an opaque state each consumer advances.\<close>

type_synonym rng = nat

datatype crypto_hash = SHA256 | SHA384 | SHA512

record pgplib = apdulib +
  ArmorDecode :: "bytes \<Rightarrow> bytes \<times> goerr option"
  ReadEntity :: "bytes \<Rightarrow> entity option \<times> goerr option"
  PkDecrypt :: "privkey \<Rightarrow> bytes \<Rightarrow> goerr option \<times> privkey"
  RandRead :: "rng \<Rightarrow> nat \<Rightarrow> (bytes \<times> goerr option) \<times> rng"
  RsaSign :: "rng \<Rightarrow> bytes \<Rightarrow> crypto_hash \<Rightarrow> bytes \<Rightarrow> (bytes \<times> goerr option) \<times> rng"
  EcdsaSign :: "rng \<Rightarrow> bytes \<Rightarrow> bytes \<Rightarrow> ((nat \<times> nat) \<times> goerr option) \<times> rng"
  RsaDecrypt :: "rng \<Rightarrow> bytes \<Rightarrow> bytes \<Rightarrow> (bytes \<times> goerr option) \<times> rng"
  EcdhDecaps :: "bytes \<Rightarrow> bytes \<Rightarrow> bytes \<times> goerr option"

text \<open>
  What the card relies on in \<^verbatim>\<open>(*packet.PrivateKey).Decrypt\<close>: it never changes the key's
  fingerprint, on success the key is no longer encrypted, on failure it still is what it was.
\<close>

definition pgp_ok :: "('x) pgplib_scheme \<Rightarrow> bool" where
  "pgp_ok L \<longleftrightarrow>
     (\<forall>k pw. pv_Fingerprint (snd (PkDecrypt L k pw)) = pv_Fingerprint k \<and>
        (fst (PkDecrypt L k pw) = None \<longrightarrow> \<not> pv_Encrypted (snd (PkDecrypt L k pw))) \<and>
        (fst (PkDecrypt L k pw) \<noteq> None \<longrightarrow>
           pv_Encrypted (snd (PkDecrypt L k pw)) = pv_Encrypted k))"

section \<open>The code\<close>

definition decodeArmoredKey :: "('x) pgplib_scheme \<Rightarrow> bytes \<Rightarrow> entity option \<times> goerr option" where
  "decodeArmoredKey L key =
     (let (body, err) = ArmorDecode L key
      in case err of Some e \<Rightarrow> (None, Some e) | None \<Rightarrow> ReadEntity L body)"

text \<open>Subkey \<open>i\<close> of an entity as a heap cell; its private key, if any, is at address \<open>i\<close>.\<close>

definition subkey_cell :: "nat \<Rightarrow> parsed_subkey \<Rightarrow> subkey" where
  "subkey_cell i ps = \<lparr>sk_PublicKey = ps_PublicKey ps,
     sk_PrivateKey = (case ps_PrivateKey ps of None \<Rightarrow> None | Some k \<Rightarrow> Some i), sk_Sig = ps_Sig ps\<rparr>"

definition subkey_cells :: "entity \<Rightarrow> subkey list" where
  "subkey_cells e = map (\<lambda>i. subkey_cell i (ent_Subkeys e ! i)) [0..<length (ent_Subkeys e)]"

type_synonym key_pointers = "nat option \<times> nat option \<times> nat option"

text \<open>
  One iteration of \<^verbatim>\<open>decodeSubkeys\<close> on subkey \<open>i\<close> of \<open>n\<close>: \<^verbatim>\<open>sig\<close> and
  \<^verbatim>\<open>dec\<close> point to the array element \<open>i\<close>, \<^verbatim>\<open>aut\<close> to the iteration's own loop variable,
  a copy of it, which has address \<open>n + i\<close>.
\<close>

fun decodeSubkeys_loop :: "nat \<Rightarrow> nat \<Rightarrow> subkey list \<Rightarrow> key_pointers \<Rightarrow> key_pointers" where
  "decodeSubkeys_loop n i [] ptrs = ptrs"
| "decodeSubkeys_loop n i (sk # rest) (sig, dec, aut) =
     decodeSubkeys_loop n (Suc i) rest
       (case sk_Sig sk of
          None \<Rightarrow> (sig, dec, aut)
        | Some f \<Rightarrow>
            if \<not> FlagsValid f then (sig, dec, aut)
            else (if FlagSign f then Some i else sig,
                  if FlagEncryptStorage f \<and> FlagEncryptCommunications f then Some i else dec,
                  if FlagAuthenticate f then Some (n + i) else aut))"

definition decodeSubkeys :: "subkey list \<Rightarrow> key_pointers" where
  "decodeSubkeys sks = decodeSubkeys_loop (length sks) 0 sks (None, None, None)"

text \<open>The cells those pointers address: the array, then the copies of its elements.\<close>

definition subkey_heap :: "subkey list \<Rightarrow> nat \<Rightarrow> subkey" where
  "subkey_heap sks a = (if a < length sks then sks ! a else sks ! (a - length sks))"

definition getOID :: "string \<Rightarrow> bytes" where
  "getOID name =
     (if name = ''P-256'' then [0x2A, 0x86, 0x48, 0xCE, 0x3D, 0x03, 0x01, 0x07]
      else if name = ''P-384'' then [0x2B, 0x81, 0x04, 0x00, 0x22]
      else if name = ''P-521'' then [0x2B, 0x81, 0x04, 0x00, 0x23]
      else if name = ''brainpoolP256r1'' then [0x2B, 0x24, 0x03, 0x03, 0x02, 0x08, 0x01, 0x01, 0x07]
      else if name = ''brainpoolP384r1'' then [0x2B, 0x24, 0x03, 0x03, 0x02, 0x08, 0x01, 0x01, 0x0B]
      else if name = ''brainpoolP512r1'' then [0x2B, 0x24, 0x03, 0x03, 0x02, 0x08, 0x01, 0x01, 0x0D]
      else [0x2B, 0x81, 0x04, 0x00, 0x23])"

section \<open>Which subkey gets which role\<close>

definition has_flags :: "(keyflags \<Rightarrow> bool) \<Rightarrow> subkey \<Rightarrow> bool" where
  "has_flags P sk \<longleftrightarrow> (\<exists>f. sk_Sig sk = Some f \<and> FlagsValid f \<and> P f)"

abbreviation for_signing :: "subkey \<Rightarrow> bool" where
  "for_signing \<equiv> has_flags FlagSign"

abbreviation for_decryption :: "subkey \<Rightarrow> bool" where
  "for_decryption \<equiv> has_flags (\<lambda>f. FlagEncryptStorage f \<and> FlagEncryptCommunications f)"

abbreviation for_authentication :: "subkey \<Rightarrow> bool" where
  "for_authentication \<equiv> has_flags FlagAuthenticate"

text \<open>The index of the last element with a property.\<close>

fun last_index :: "('a \<Rightarrow> bool) \<Rightarrow> 'a list \<Rightarrow> nat option" where
  "last_index P [] = None"
| "last_index P (x # xs) =
     (case last_index P xs of Some j \<Rightarrow> Some (Suc j) | None \<Rightarrow> if P x then Some 0 else None)"

lemma last_index_None: "last_index P xs = None \<longleftrightarrow> (\<forall>x \<in> set xs. \<not> P x)"
  by (induction xs) (auto split: option.splits)

lemma last_index_SomeD:
  "last_index P xs = Some i \<Longrightarrow> i < length xs \<and> P (xs ! i) \<and> (\<forall>x \<in> set (drop (Suc i) xs). \<not> P x)"
proof (induction xs arbitrary: i)
  case (Cons x xs)
  then show ?case
    by (cases "last_index P xs") (auto simp: last_index_None split: if_splits)
qed simp

lemma decodeSubkeys_loop_eq:
  "decodeSubkeys_loop n i sks (sig, dec, aut) =
     (case last_index for_signing sks of Some j \<Rightarrow> Some (i + j) | None \<Rightarrow> sig,
      case last_index for_decryption sks of Some j \<Rightarrow> Some (i + j) | None \<Rightarrow> dec,
      case last_index for_authentication sks of Some j \<Rightarrow> Some (n + (i + j)) | None \<Rightarrow> aut)"
proof (induction sks arbitrary: i sig dec aut)
  case (Cons sk sks)
  show ?case
    by (cases "sk_Sig sk") (auto simp: Cons.IH has_flags_def split: option.splits)
qed simp

lemma decodeSubkeys_alt:
  "decodeSubkeys sks =
     (last_index for_signing sks, last_index for_decryption sks,
      map_option (\<lambda>j. length sks + j) (last_index for_authentication sks))"
  by (auto simp: decodeSubkeys_def decodeSubkeys_loop_eq split: option.splits)

text \<open>
  C34. Role assignment: the signature, decryption and authentication keys are the last subkeys
  whose (valid) key flags allow signing, encryption of both storage and communications, and
  authentication; a role no subkey has flags for is empty. The first two are the entity's own
  subkeys, the authentication key is a copy outside it.
\<close>

theorem decodeSubkeys_spec:
  "decodeSubkeys sks =
     (last_index for_signing sks, last_index for_decryption sks,
      map_option (\<lambda>j. length sks + j) (last_index for_authentication sks))"
  by (rule decodeSubkeys_alt)

end
