(* ===== verification/Card.thy ===== *)
theory Card
  imports OpenPgp
begin

text \<open>
  The OpenPGP card instance, \<^verbatim>\<open>src/internal/icc/interface.go\<close> and
  \<^verbatim>\<open>verify.go\<close>: its state, initialization, the status text and passphrase verification.
  The record \<open>card\<close> has the fields of \<^verbatim>\<open>icc.Interface\<close> (prefix \<open>c_\<close>) and the
  state the methods reach through pointers and globals: the two heaps of \<open>OpenPgp\<close>, the LEDs,
  the CPU clock with the pending sleep timers, and the random source. Log output is left out.

  \<open>card_inv\<close> ties the key slots to the encrypted copies made at initialization; \<open>Verify\<close>
  keeps it, and \<open>card_handler\<close> is the contract every operation of the card is held to.
\<close>

section \<open>State\<close>

record card =
  c_Serial :: bytes
  c_Name :: string
  c_Language :: string
  c_Sex :: string
  c_URL :: string
  c_LoginData :: bytes
  c_Debug :: bool
  c_SNVS :: bool
  c_ArmoredKey :: bytes
  c_Key :: "entity option"
  c_Sig :: "nat option"
  c_Dec :: "nat option"
  c_Aut :: "nat option"
  c_sig :: privkey
  c_dec :: privkey
  c_aut :: privkey
  c_CA :: "bytes option list"
  c_errorCounterPW1 :: byte
  c_errorCounterRC :: byte
  c_errorCounterPW3 :: byte
  c_digitalSignatureCounter :: u32
  c_rpc :: bool
  c_selected :: bool
  c_initialized :: bool
  c_awake :: bool
  c_freq_max :: bool
  c_sleep_timers :: nat
  c_skh :: "nat \<Rightarrow> subkey"
  c_pkh :: "nat \<Rightarrow> privkey"
  c_pknext :: nat
  c_led_white :: bool
  c_led_blue :: bool
  c_rng :: rng

definition DiversifierPGP :: bytes where
  "DiversifierPGP = str_bytes ''GoKeySNVSOpenPGP''"

abbreviation (input) DEFAULT_PW1_ERROR_COUNTER :: byte where
  "DEFAULT_PW1_ERROR_COUNTER \<equiv> 3"

abbreviation (input) PW_VERIFY :: byte where "PW_VERIFY \<equiv> 0x00"

abbreviation (input) PW_LOCK :: byte where "PW_LOCK \<equiv> 0xff"

abbreviation (input) PW1_CDS_MULTI :: byte where "PW1_CDS_MULTI \<equiv> 0x00"

abbreviation (input) PW1_CDS :: byte where "PW1_CDS \<equiv> 0x81"

abbreviation (input) PW1 :: byte where "PW1 \<equiv> 0x82"

abbreviation (input) PW3 :: byte where "PW3 \<equiv> 0x83"

text \<open>\<^verbatim>\<open>LED\<close>, in both builds: the USB armory has a white and a blue one.\<close>

definition LED :: "string \<Rightarrow> bool \<Rightarrow> card \<Rightarrow> card" where
  "LED name on c =
     (if name = ''white'' then c\<lparr>c_led_white := on\<rparr>
      else if name = ''blue'' then c\<lparr>c_led_blue := on\<rparr> else c)"

text \<open>
  \<^verbatim>\<open>subkey == nil || subkey.PrivateKey == nil\<close>, read as the addresses of the subkey and of
  its private key when both exist.
\<close>

definition subkey_priv :: "card \<Rightarrow> nat option \<Rightarrow> (nat \<times> nat) option" where
  "subkey_priv c sk =
     (case sk of
        None \<Rightarrow> None
      | Some a \<Rightarrow> (case sk_PrivateKey (c_skh c a) of None \<Rightarrow> None | Some p \<Rightarrow> Some (a, p)))"

section \<open>wake.go\<close>

text \<open>
  \<^verbatim>\<open>Wake\<close> raises the clock and arms a timer; \<open>sleep_timeout\<close> is the function the timer
  runs after \<^verbatim>\<open>SleepTimeout\<close>. Both hold the card's mutex.
\<close>

definition Wake :: "card \<Rightarrow> card" where
  "Wake c =
     (if c_awake c then c
      else c\<lparr>c_freq_max := True, c_awake := True, c_sleep_timers := Suc (c_sleep_timers c)\<rparr>)"

definition sleep_timeout :: "card \<Rightarrow> card" where
  "sleep_timeout c =
     c\<lparr>c_freq_max := False, c_awake := False, c_sleep_timers := c_sleep_timers c - 1\<rparr>"

section \<open>verify.go\<close>

definition slot_unlocked :: "card \<Rightarrow> nat option \<Rightarrow> bool" where
  "slot_unlocked c sk =
     (case subkey_priv c sk of
        None \<Rightarrow> False
      | Some (a, p) \<Rightarrow> pv_PrivateKey (c_pkh c p) \<noteq> None \<and> \<not> pv_Encrypted (c_pkh c p))"

definition signalVerificationStatus :: "card \<Rightarrow> card" where
  "signalVerificationStatus c = LED ''blue'' (list_ex (slot_unlocked c) [c_Sig c, c_Dec c]) c"

text \<open>\<^verbatim>\<open>Restore\<close>: the first cached key with the subkey's fingerprint (a fresh copy of it).\<close>

definition Restore :: "card \<Rightarrow> nat option \<Rightarrow> privkey option" where
  "Restore c sk =
     (case subkey_priv c sk of
        None \<Rightarrow> None
      | Some (a, p) \<Rightarrow>
          find (\<lambda>k. pv_Fingerprint k = pv_Fingerprint (c_pkh c p)) [c_sig c, c_dec c, c_aut c])"

text \<open>The \<^verbatim>\<open>PW_VERIFY\<close> branch of \<^verbatim>\<open>Verify\<close>, for the private key at address \<open>p\<close>.\<close>

definition verify_pin :: "('x) pgplib_scheme \<Rightarrow> nat \<Rightarrow> bytes \<Rightarrow> card \<Rightarrow> reply \<times> card" where
  "verify_pin L p passphrase c =
     (let k = c_pkh c p
      in if length passphrase = 0 then
           (if \<not> pv_Encrypted k then ((Some (CommandCompleted []), None), c)
            else ((Some (VerifyFail (c_errorCounterPW1 c)), None), c))
         else if \<not> pv_Encrypted k then ((Some (CommandCompleted []), None), c)
         else if c_errorCounterPW1 c = 0 then
           ((Some (VerifyFail (c_errorCounterPW1 c)), None), c)
         else
           let (err, k') = PkDecrypt L k passphrase;
               c' = c\<lparr>c_pkh := (c_pkh c)(p := k')\<rparr>
           in case err of
                None \<Rightarrow>
                  ((Some (CommandCompleted []), None),
                   c'\<lparr>c_errorCounterPW1 := DEFAULT_PW1_ERROR_COUNTER\<rparr>)
              | Some _ \<Rightarrow>
                  let n = c_errorCounterPW1 c - 1
                  in ((Some (VerifyFail n), None), c'\<lparr>c_errorCounterPW1 := n\<rparr>))"

text \<open>
  The \<^verbatim>\<open>PW_LOCK\<close> branch, for the subkey at \<open>a\<close> with private key \<open>p\<close>: assigning the
  restored copy gives \<^verbatim>\<open>subkey.PrivateKey\<close> a fresh address. Without a match \<^verbatim>\<open>Restore\<close> returns nil, which the next line
  dereferences.
\<close>

definition set_private :: "nat \<Rightarrow> privkey \<Rightarrow> card \<Rightarrow> card" where
  "set_private a k c =
     c\<lparr>c_pkh := (c_pkh c)(c_pknext c := k),
       c_skh := (c_skh c)(a := (c_skh c a)\<lparr>sk_PrivateKey := Some (c_pknext c)\<rparr>),
       c_pknext := Suc (c_pknext c)\<rparr>"

definition lock_key :: "nat \<Rightarrow> nat \<Rightarrow> card \<Rightarrow> (reply \<times> card) option" where
  "lock_key a p c =
     (if pv_Encrypted (c_pkh c p) then Some ((Some (CommandCompleted []), None), c)
      else case Restore c (Some a) of
             None \<Rightarrow> None
           | Some k \<Rightarrow>
               Some ((Some (CommandCompleted []), None), set_private a k c))"

definition Verify ::
    "('x) pgplib_scheme \<Rightarrow> byte \<Rightarrow> byte \<Rightarrow> bytes \<Rightarrow> card \<Rightarrow> (reply \<times> card) option" where
  "Verify L p1 p2 passphrase c =
     map_option (\<lambda>(r, c'). (r, signalVerificationStatus c'))
       (if p2 = PW3 then Some ((Some (CommandNotAllowed L), None), c)
        else
          case subkey_priv c (if p2 = PW1_CDS then c_Sig c else if p2 = PW1 then c_Dec c else None) of
            None \<Rightarrow> Some ((Some (CommandNotAllowed L), None), c)
          | Some (a, p) \<Rightarrow>
              if p1 = PW_VERIFY then Some (verify_pin L p passphrase c)
              else if p1 = PW_LOCK then lock_key a p c
              else Some ((Some (CommandNotAllowed L), None), c))"

section \<open>Status\<close>

definition is_xdigit :: "char \<Rightarrow> bool" where
  "is_xdigit ch \<longleftrightarrow> ch \<in> set ''0123456789abcdefABCDEF''"

text \<open>\<^verbatim>\<open>ReplaceAllString(s, "$1 ")\<close> for the expression \<^verbatim>\<open>([[:xdigit:]]{4})\<close>.\<close>

fun group4 :: "string \<Rightarrow> string" where
  "group4 (a # b # c # d # rest) =
     (if is_xdigit a \<and> is_xdigit b \<and> is_xdigit c \<and> is_xdigit d
      then [a, b, c, d, CHR '' ''] @ group4 rest else a # group4 (b # c # d # rest))"
| "group4 s = s"

definition fingerprint_line :: "bytes \<Rightarrow> string" where
  "fingerprint_line fp = group4 (fmt_X fp @ newline)"

text \<open>One iteration of the subkey loop of \<^verbatim>\<open>Status\<close>; a subkey without public key panics.\<close>

definition subkey_status :: "card \<Rightarrow> string \<times> nat option \<Rightarrow> string option" where
  "subkey_status c = (\<lambda>(desc, sk).
     case sk of
       None \<Rightarrow> Some (desc @ ''missing'' @ newline)
     | Some a \<Rightarrow>
         (case sk_PublicKey (c_skh c a) of
            None \<Rightarrow> None
          | Some pub \<Rightarrow>
              Some (desc @ fingerprint_line (pub_Fingerprint pub) @
                (case sk_PrivateKey (c_skh c a) of
                   None \<Rightarrow> []
                 | Some p \<Rightarrow>
                     ''               encrypted: '' @ fmt_bool (pv_Encrypted (c_pkh c p)) @ newline))))"

definition Status :: "card \<Rightarrow> string option" where
  "Status c =
     do {
       s \<leftarrow> subkey_status c (''Signature subkey .......: '', c_Sig c);
       d \<leftarrow> subkey_status c (''Decryption subkey ......: '', c_Dec c);
       a \<leftarrow> subkey_status c (''Authentication subkey ..: '', c_Aut c);
       Some (''---------------------------------------------------- OpenPGP smartcard ----'' @ newline @
         ''Initialized ............: '' @ fmt_bool (c_initialized c) @ newline @
         ''Secure storage .........: '' @ fmt_bool (c_SNVS c) @ newline @
         ''Serial number ..........: '' @ fmt_X (c_Serial c) @ newline @
         ''Digital signature count.: '' @ fmt_d (unat (c_digitalSignatureCounter c)) @ newline @
         ''Secret key .............: '' @
         (case c_Key c of
            Some k \<Rightarrow> fingerprint_line (ent_PrimaryFingerprint k)
          | None \<Rightarrow> ''missing'' @ newline) @
         s @ d @ a)
     }"

section \<open>Init\<close>

text \<open>Loading a parsed entity: the heaps, the slots and the encrypted copies for PW\_LOCK.\<close>

definition private_heap :: "entity \<Rightarrow> nat \<Rightarrow> privkey" where
  "private_heap e p =
     (if p < length (ent_Subkeys e)
      then (case ps_PrivateKey (ent_Subkeys e ! p) of Some k \<Rightarrow> k | None \<Rightarrow> privkey_zero)
      else privkey_zero)"

definition cached :: "card \<Rightarrow> nat option \<Rightarrow> privkey \<Rightarrow> privkey" where
  "cached c sk old = (case subkey_priv c sk of None \<Rightarrow> old | Some (a, p) \<Rightarrow> c_pkh c p)"

definition load_entity :: "entity \<Rightarrow> card \<Rightarrow> card" where
  "load_entity e c =
     (let sks = subkey_cells e;
          (s, d, a) = decodeSubkeys sks;
          c1 = c\<lparr>c_skh := subkey_heap sks, c_pkh := private_heap e, c_pknext := length sks,
                 c_Sig := s, c_Dec := d, c_Aut := a\<rparr>
      in c1\<lparr>c_sig := cached c1 s (c_sig c), c_dec := cached c1 d (c_dec c),
            c_aut := cached c1 a (c_aut c)\<rparr>)"

definition Init :: "('x) pgplib_scheme \<Rightarrow> card \<Rightarrow> (goerr option \<times> card) option" where
  "Init L c =
     (if c_initialized c then Some (Some (GoErr ''card already initialized''), c)
      else
        do {
          (armored, err) \<leftarrow>
            (if c_SNVS c then snvs_Decrypt L (c_ArmoredKey c) DiversifierPGP
             else Some (c_ArmoredKey c, None));
          let c1 = c\<lparr>c_ArmoredKey := armored\<rparr>;
          (case err of
             Some e \<Rightarrow> Some (Some (wrap_err ''OpenPGP key decryption failed'' e), c1)
           | None \<Rightarrow>
               let (key, err) = decodeArmoredKey L armored;
                   c2 = c1\<lparr>c_Key := key\<rparr>
               in case err of
                    Some e \<Rightarrow> Some (Some (wrap_err ''OpenPGP key decoding failed'' e), c2)
                  | None \<Rightarrow>
                      (case key of
                         None \<Rightarrow> None
                       | Some ent \<Rightarrow>
                           let c3 = (load_entity ent c2)
                                 \<lparr>c_errorCounterPW1 := DEFAULT_PW1_ERROR_COUNTER,
                                  c_initialized := True\<rparr>
                           in case Status c3 of
                                None \<Rightarrow> None
                              | Some _ \<Rightarrow>
                                  Some (None, signalVerificationStatus
                                    (LED ''blue'' False (LED ''white'' False c3)))))
        })"

definition Initialized :: "card \<Rightarrow> bool" where
  "Initialized c = c_initialized c"

end
