(* ===== verification/SampleCard.thy ===== *)
theory SampleCard
  imports Card
begin

text \<open>
  A concrete instance of the library parameters and a small card, for evaluating the model on
  concrete inputs: two subkeys, RSA for signing with passphrase \<open>[1, 2]\<close> and ECDH for
  decryption with passphrase \<open>[3, 4]\<close>. The instance satisfies the hypotheses of the
  theorems, \<open>cipher_ok\<close>, \<open>apdu_ok\<close> and \<open>pgp_ok\<close>.
\<close>

definition sample_Unmarshal :: "bytes \<Rightarrow> capdu \<times> goerr option" where
  "sample_Unmarshal buf =
     (case buf of
        a # b # c # d # rest \<Rightarrow>
          (\<lparr>CLA = a, INS = b, P1 = c, P2 = d, CData = rest, CRest = []\<rparr>, None)
      | _ \<Rightarrow> (\<lparr>CLA = 0, INS = 0, P1 = 0, P2 = 0, CData = [], CRest = []\<rparr>,
               Some (GoErr ''too short'')))"

definition sample_PkDecrypt :: "privkey \<Rightarrow> bytes \<Rightarrow> goerr option \<times> privkey" where
  "sample_PkDecrypt k pw =
     (if pw = pv_encryptedData k then (None, k\<lparr>pv_Encrypted := False\<rparr>)
      else (Some (GoErr ''wrong passphrase''), k))"

definition sample_pub :: "byte \<Rightarrow> pubkey" where
  "sample_pub i = \<lparr>pub_Fingerprint = replicate 20 i, pub_CreationTime = 1000, pub_PubKeyAlgo = 1,
     pub_PublicKey = RsaPub 65521 65537\<rparr>"

definition sample_sig :: privkey where
  "sample_sig = \<lparr>pv_Fingerprint = replicate 20 1, pv_KeyId = 1, pv_CreationTime = 1000,
     pv_Encrypted = True, pv_PrivateKey = Some (RsaPriv [7]), pv_encryptedData = [1, 2]\<rparr>"

definition sample_dec :: privkey where
  "sample_dec = \<lparr>pv_Fingerprint = replicate 20 2, pv_KeyId = 2, pv_CreationTime = 1000,
     pv_Encrypted = True, pv_PrivateKey = Some (EcdhPriv [8]), pv_encryptedData = [3, 4]\<rparr>"

definition no_flags :: keyflags where
  "no_flags = \<lparr>FlagsValid = True, FlagSign = False, FlagEncryptStorage = False,
     FlagEncryptCommunications = False, FlagAuthenticate = False\<rparr>"

definition sample_entity :: entity where
  "sample_entity = \<lparr>ent_PrimaryFingerprint = replicate 20 9, ent_Subkeys =
     [\<lparr>ps_PublicKey = Some (sample_pub 1), ps_PrivateKey = Some sample_sig,
       ps_Sig = Some (no_flags\<lparr>FlagSign := True\<rparr>)\<rparr>,
      \<lparr>ps_PublicKey = Some (sample_pub 2), ps_PrivateKey = Some sample_dec,
       ps_Sig = Some (no_flags\<lparr>FlagEncryptStorage := True, FlagEncryptCommunications := True\<rparr>)\<rparr>]\<rparr>"

definition sample_lib :: pgplib where
  "sample_lib = devlib.extend demo_dev
     \<lparr>NewRAPDU = (\<lambda>t. case t of
          RAPDUCommandNotAllowed \<Rightarrow> \<lparr>SW1 = 0x69, SW2 = 0x86, ResponseBody = []\<rparr>
        | RAPDUFileNotFound \<Rightarrow> \<lparr>SW1 = 0x6a, SW2 = 0x82, ResponseBody = []\<rparr>),
      Unmarshal = sample_Unmarshal,
      Marshal = (\<lambda>r. (ResponseBody r @ [SW1 r, SW2 r], None)),
      GetLe = (\<lambda>_. 8),
      ArmorDecode = (\<lambda>k. (k, None)),
      ReadEntity = (\<lambda>b. (Some sample_entity, None)),
      PkDecrypt = sample_PkDecrypt,
      RandRead = (\<lambda>s n. ((replicate n (of_nat s), None), Suc s)),
      RsaSign = (\<lambda>s k h d. ((d, None), s)),
      EcdsaSign = (\<lambda>s k d. (((length d, 1), None), Suc s)),
      RsaDecrypt = (\<lambda>s k d. ((d, None), s)),
      EcdhDecaps = (\<lambda>p k. ([1, 2], None))\<rparr>"

lemma sample_lib_simps [simp]:
  "PkDecrypt sample_lib = sample_PkDecrypt"
  "Unmarshal sample_lib = sample_Unmarshal"
  "Marshal sample_lib r = (ResponseBody r @ [SW1 r, SW2 r], None)"
  "GetLe sample_lib cmd = 8"
  "ReadEntity sample_lib b = (Some sample_entity, None)"
  "ArmorDecode sample_lib k = (k, None)"
  "RandRead sample_lib s n = ((replicate n (of_nat s), None), Suc s)"
  "RsaSign sample_lib s k h d = ((d, None), s)"
  "EcdsaSign sample_lib s k d = (((length d, 1), None), Suc s)"
  "RsaDecrypt sample_lib s k d = ((d, None), s)"
  "EcdhDecaps sample_lib p k = ([1, 2], None)"
  "CommandNotAllowed sample_lib = \<lparr>SW1 = 0x69, SW2 = 0x86, ResponseBody = []\<rparr>"
  "FileNotFound sample_lib = \<lparr>SW1 = 0x6a, SW2 = 0x82, ResponseBody = []\<rparr>"
  by (simp_all add: sample_lib_def devlib.defs CommandNotAllowed_def FileNotFound_def)

lemma sample_lib_dev [simp]:
  "Tamago sample_lib" "SnvsAvailable sample_lib"
  "DeriveKey sample_lib d iv i = (replicate 16 5, None)"
  "AesEnc sample_lib k b = map (\<lambda>x. x + hd k) b"
  "AesDec sample_lib k b = map (\<lambda>x. x - hd k) b"
  by (simp_all add: sample_lib_def devlib.defs demo_dev_def cryptolib.defs demo_crypto_def)

lemma sample_lib_cipher: "cipher_ok sample_lib"
  using demo_dev_ok by (simp add: sample_lib_def devlib.defs cipher_ok_def)

lemma sample_lib_apdu: "apdu_ok sample_lib"
  by (simp add: apdu_ok_def completed_def)

lemma sample_lib_pgp: "pgp_ok sample_lib"
  by (simp add: pgp_ok_def sample_PkDecrypt_def)

text \<open>A card fresh from \<^verbatim>\<open>&icc.Interface{}\<close>, and the sample card ready for use.\<close>

definition blank_card :: card where
  "blank_card = \<lparr>c_Serial = [0, 0, 0, 0], c_Name = [], c_Language = [], c_Sex = [], c_URL = [],
     c_LoginData = [], c_Debug = False, c_SNVS = False, c_ArmoredKey = [], c_Key = None,
     c_Sig = None, c_Dec = None, c_Aut = None, c_sig = privkey_zero, c_dec = privkey_zero,
     c_aut = privkey_zero, c_CA = [], c_errorCounterPW1 = 0, c_errorCounterRC = 0,
     c_errorCounterPW3 = 0, c_digitalSignatureCounter = 0, c_rpc = False, c_selected = False,
     c_initialized = False, c_awake = False, c_freq_max = False, c_sleep_timers = 0, c_skh = (\<lambda>_. subkey_cell 0
       \<lparr>ps_PublicKey = None, ps_PrivateKey = None, ps_Sig = None\<rparr>), c_pkh = (\<lambda>_. privkey_zero),
     c_pknext = 0, c_led_white = False, c_led_blue = False, c_rng = 0\<rparr>"

definition sample_card :: card where
  "sample_card = blank_card
     \<lparr>c_Key := Some sample_entity, c_Sig := Some 0, c_Dec := Some 1,
      c_sig := sample_sig, c_dec := sample_dec, c_errorCounterPW1 := 3, c_initialized := True,
      c_skh := (\<lambda>a. \<lparr>sk_PublicKey = Some (sample_pub (if a = 0 then 1 else 2)),
        sk_PrivateKey = Some a, sk_Sig = None\<rparr>),
      c_pkh := (\<lambda>p. if p = 0 then sample_sig else if p = 1 then sample_dec else privkey_zero),
      c_pknext := 2\<rparr>"

lemma sample_card_simps [simp]:
  "c_Sig sample_card = Some 0" "c_Dec sample_card = Some 1" "c_Aut sample_card = None"
  "c_sig sample_card = sample_sig" "c_dec sample_card = sample_dec"
  "c_errorCounterPW1 sample_card = 3" "c_pknext sample_card = 2"
  "c_initialized sample_card" "c_digitalSignatureCounter sample_card = 0"
  "c_pkh sample_card 0 = sample_sig" "c_pkh sample_card (Suc 0) = sample_dec"
  "sk_PrivateKey (c_skh sample_card a) = Some a"
  "c_rng sample_card = 0" "\<not> c_led_blue sample_card" "\<not> c_selected sample_card"
  by (simp_all add: sample_card_def blank_card_def)

lemma sample_card_slots [simp]:
  "subkey_priv sample_card (Some a) = Some (a, a)"
  by (simp add: subkey_priv_def)

lemmas sample_key_defs = sample_sig_def sample_dec_def sample_PkDecrypt_def

end
