(* ===== verification/CardInv.thy ===== *)
theory CardInv
  imports Card
begin

text \<open>
  The invariant of an OpenPGP card, the contract its operations are held to, and the laws of
  \<^verbatim>\<open>Verify\<close> (\<^verbatim>\<open>src/internal/icc/verify.go\<close>). \<open>card_handler\<close> is the interface:
  \<open>quiet_handler\<close> refines it for operations that never unlock a key, \<open>passive_handler\<close> for
  those that do not touch key material at all; the theories of the single commands interpret one
  of the three, and \<open>CardCommand\<close> lifts the laws to command sequences.
\<close>

section \<open>Slots and the invariant\<close>

text \<open>A slot is locked when its key is present and still encrypted with the passphrase.\<close>

definition slot_locked :: "card \<Rightarrow> nat option \<Rightarrow> bool" where
  "slot_locked c sk =
     (case subkey_priv c sk of None \<Rightarrow> False | Some (a, p) \<Rightarrow> pv_Encrypted (c_pkh c p))"

definition slot_ok :: "card \<Rightarrow> nat option \<Rightarrow> privkey \<Rightarrow> bool" where
  "slot_ok c sk cache =
     (case subkey_priv c sk of
        None \<Rightarrow> True
      | Some (a, p) \<Rightarrow> p < c_pknext c \<and> pv_Fingerprint (c_pkh c p) = pv_Fingerprint cache)"

text \<open>
  The retry counter never exceeds its default, every slot's key is the one its encrypted copy was
  taken from, and the copies agree on whether that key has a passphrase.
\<close>

definition card_inv :: "card \<Rightarrow> bool" where
  "card_inv c \<longleftrightarrow>
     c_errorCounterPW1 c \<le> DEFAULT_PW1_ERROR_COUNTER \<and>
     slot_ok c (c_Sig c) (c_sig c) \<and> slot_ok c (c_Dec c) (c_dec c) \<and> slot_ok c (c_Aut c) (c_aut c) \<and>
     (pv_Fingerprint (c_sig c) = pv_Fingerprint (c_dec c) \<longrightarrow>
        pv_Encrypted (c_sig c) = pv_Encrypted (c_dec c))"

text \<open>The blue LED is on exactly when the signature or the decryption key is usable.\<close>

definition led_ok :: "card \<Rightarrow> bool" where
  "led_ok c \<longleftrightarrow> c_led_blue c = (slot_unlocked c (c_Sig c) \<or> slot_unlocked c (c_Dec c))"

text \<open>What no operation of an initialized card changes.\<close>

definition card_identity :: "card \<Rightarrow>
    (bytes \<times> string \<times> string \<times> string \<times> string \<times> bytes \<times> bytes) \<times>
    (entity option \<times> nat option \<times> nat option \<times> nat option) \<times>
    (privkey \<times> privkey \<times> privkey) \<times> (bool \<times> bool)" where
  "card_identity c =
     ((c_Serial c, c_Name c, c_Language c, c_Sex c, c_URL c, c_LoginData c, c_ArmoredKey c),
      (c_Key c, c_Sig c, c_Dec c, c_Aut c), (c_sig c, c_dec c, c_aut c),
      (c_SNVS c, c_initialized c))"

lemma card_identityD:
  assumes "card_identity c' = card_identity c"
  shows "c_Sig c' = c_Sig c" "c_Dec c' = c_Dec c" "c_Aut c' = c_Aut c"
    "c_sig c' = c_sig c" "c_dec c' = c_dec c" "c_aut c' = c_aut c"
    "c_initialized c' = c_initialized c" "c_Key c' = c_Key c" "c_Serial c' = c_Serial c"
  using assms by (simp_all add: card_identity_def)

text \<open>
  The power state: an awake card runs at full clock, and has exactly one timer pending to put it
  back to sleep; a card that is not awake has none. (Before the first wake-up the clock is still
  at the full speed the boot code sets.)
\<close>

definition card_power :: "card \<Rightarrow> bool \<times> bool \<times> nat" where
  "card_power c = (c_awake c, c_freq_max c, c_sleep_timers c)"

definition power_ok :: "card \<Rightarrow> bool" where
  "power_ok c \<longleftrightarrow> (c_awake c \<longrightarrow> c_freq_max c) \<and> c_sleep_timers c = (if c_awake c then 1 else 0)"

lemma power_ok_cong: "card_power c' = card_power c \<Longrightarrow> power_ok c' = power_ok c"
  by (simp add: card_power_def power_ok_def)

text \<open>Operations that leave the slots and both heaps alone leave all of the above alone.\<close>

definition same_keys :: "card \<Rightarrow> card \<Rightarrow> bool" where
  "same_keys c c' \<longleftrightarrow> c_skh c' = c_skh c \<and> c_pkh c' = c_pkh c \<and> c_pknext c' = c_pknext c"

lemma same_keysD:
  assumes "same_keys c c'"
  shows "c_skh c' = c_skh c" and "c_pkh c' = c_pkh c" and "c_pknext c' = c_pknext c"
  using assms by (simp_all add: same_keys_def)

lemma same_keys_slots:
  assumes "same_keys c c'"
  shows "subkey_priv c' sk = subkey_priv c sk" and "slot_locked c' sk = slot_locked c sk"
    and "slot_unlocked c' sk = slot_unlocked c sk" and "slot_ok c' sk k = slot_ok c sk k"
proof -
  show *: "subkey_priv c' sk = subkey_priv c sk"
    unfolding subkey_priv_def same_keysD [OF assms] ..
  show "slot_locked c' sk = slot_locked c sk" and "slot_unlocked c' sk = slot_unlocked c sk"
    and "slot_ok c' sk k = slot_ok c sk k"
    unfolding slot_locked_def slot_unlocked_def slot_ok_def * same_keysD [OF assms] by simp_all
qed

lemma same_keys_inv:
  assumes "same_keys c c'" and "card_identity c' = card_identity c"
    and "c_errorCounterPW1 c' = c_errorCounterPW1 c"
  shows "card_inv c' = card_inv c"
  unfolding card_inv_def same_keys_slots(4) [OF assms(1)] card_identityD [OF assms(2)] assms(3) ..

section \<open>Signalling\<close>

lemma LED_frame [frame_simps]:
  "same_keys c (LED nm on c)" "card_identity (LED nm on c) = card_identity c"
  "c_errorCounterPW1 (LED nm on c) = c_errorCounterPW1 c"
  "c_digitalSignatureCounter (LED nm on c) = c_digitalSignatureCounter c"
  "c_rng (LED nm on c) = c_rng c" "c_selected (LED nm on c) = c_selected c"
  "card_power (LED nm on c) = card_power c"
  by (simp_all add: LED_def same_keys_def card_identity_def card_power_def)

lemma signal_frame [frame_simps]:
  "same_keys c (signalVerificationStatus c)"
  "card_identity (signalVerificationStatus c) = card_identity c"
  "c_errorCounterPW1 (signalVerificationStatus c) = c_errorCounterPW1 c"
  "c_digitalSignatureCounter (signalVerificationStatus c) = c_digitalSignatureCounter c"
  "c_rng (signalVerificationStatus c) = c_rng c"
  "c_selected (signalVerificationStatus c) = c_selected c"
  "card_power (signalVerificationStatus c) = card_power c"
  by (simp_all add: signalVerificationStatus_def frame_simps)

lemma signal_led_ok: "led_ok (signalVerificationStatus c)"
proof -
  have "c_led_blue (signalVerificationStatus c) = (slot_unlocked c (c_Sig c) \<or> slot_unlocked c (c_Dec c))"
    by (simp add: signalVerificationStatus_def LED_def)
  then show ?thesis
    using same_keys_slots(3) [OF signal_frame(1)] card_identityD(1,2) [OF signal_frame(2)]
    by (simp add: led_ok_def)
qed

lemma signal_inv [simp]: "card_inv (signalVerificationStatus c) = card_inv c"
  by (rule same_keys_inv) (simp_all add: frame_simps)

lemma signal_locked [simp]: "slot_locked (signalVerificationStatus c) sk = slot_locked c sk"
  by (rule same_keys_slots(2)) (simp add: frame_simps)

section \<open>Verification and locking\<close>

lemma subkey_priv_update [simp]:
  "subkey_priv (c\<lparr>c_pkh := h\<rparr>) sk = subkey_priv c sk"
  "subkey_priv (c\<lparr>c_errorCounterPW1 := n\<rparr>) sk = subkey_priv c sk"
  by (simp_all add: subkey_priv_def split: option.splits)

lemma subkey_priv_set_private:
  "subkey_priv (set_private a k c) sk =
     (if sk = Some a then Some (a, c_pknext c) else subkey_priv c sk)"
  by (auto simp: subkey_priv_def set_private_def split: option.splits)

lemma subkey_priv_Some: "subkey_priv c sk = Some (a, p) \<Longrightarrow> sk = Some a"
  by (auto simp: subkey_priv_def split: option.splits)

lemma set_private_frame [frame_simps]:
  "card_identity (set_private a k c) = card_identity c"
  "c_errorCounterPW1 (set_private a k c) = c_errorCounterPW1 c"
  "c_digitalSignatureCounter (set_private a k c) = c_digitalSignatureCounter c"
  "c_pknext (set_private a k c) = Suc (c_pknext c)"
  "c_pkh (set_private a k c) = (c_pkh c)(c_pknext c := k)"
  "c_selected (set_private a k c) = c_selected c"
  "c_rng (set_private a k c) = c_rng c"
  "card_power (set_private a k c) = card_power c"
  by (simp_all add: set_private_def card_identity_def card_power_def)

lemma set_private_slot_ok:
  assumes "slot_ok c sk cache" and "sk = Some a \<Longrightarrow> pv_Fingerprint k = pv_Fingerprint cache"
  shows "slot_ok (set_private a k c) sk cache"
  using assms
  by (auto simp: slot_ok_def subkey_priv_set_private frame_simps split: option.splits prod.splits)

lemma set_private_locked:
  assumes "slot_ok c sk cache" and "slot_locked c sk" and "sk = Some a \<Longrightarrow> pv_Encrypted k"
  shows "slot_locked (set_private a k c) sk"
  using assms
  by (auto simp: slot_ok_def slot_locked_def subkey_priv_set_private frame_simps
      split: option.splits prod.splits)

text \<open>Which key \<^verbatim>\<open>Restore\<close> finds for the two slots that can be locked.\<close>

lemma Restore_Sig:
  assumes "card_inv c" and "subkey_priv c (c_Sig c) = Some (a, p)"
  shows "Restore c (c_Sig c) = Some (c_sig c)"
  using assms by (simp add: card_inv_def slot_ok_def Restore_def)

lemma Restore_Dec:
  assumes "card_inv c" and "subkey_priv c (c_Dec c) = Some (a, p)"
  shows "\<exists>k. Restore c (c_Dec c) = Some k \<and> pv_Fingerprint k = pv_Fingerprint (c_dec c)
    \<and> pv_Encrypted k = pv_Encrypted (c_dec c)"
  using assms by (auto simp: card_inv_def slot_ok_def Restore_def)

lemma Restore_fingerprint:
  assumes "Restore c sk = Some k" and "subkey_priv c sk = Some (a, p)"
  shows "pv_Fingerprint k = pv_Fingerprint (c_pkh c p)"
  using assms by (auto simp: Restore_def split: if_splits)

lemma set_private_inv:
  assumes "card_inv c" and "subkey_priv c sk = Some (a, p)" and "Restore c sk = Some k"
  shows "card_inv (set_private a k c)"
proof -
  have "pv_Fingerprint k = pv_Fingerprint cache" if "slot_ok c sk' cache" and "sk' = Some a" for sk' cache
    using that assms(2) subkey_priv_Some [OF assms(2)] Restore_fingerprint [OF assms(3,2)]
    by (simp add: slot_ok_def)
  then show ?thesis
    using assms(1) set_private_frame(1,2) [of a k c]
    unfolding card_inv_def card_identityD [OF set_private_frame(1)]
    by (auto intro: set_private_slot_ok)
qed

lemma lock_key_cases:
  assumes "lock_key a p c = Some (r, c')"
  obtains "pv_Encrypted (c_pkh c p)" "c' = c"
  | k where "\<not> pv_Encrypted (c_pkh c p)" "Restore c (Some a) = Some k" "c' = set_private a k c"
  using assms by (auto simp: lock_key_def split: if_splits option.splits)

lemma verify_pin_cases:
  assumes "verify_pin L p pw c = (r, c')"
  obtains "c' = c"
  | k where "pv_Encrypted (c_pkh c p)" "c_errorCounterPW1 c \<noteq> 0" "pw \<noteq> []"
      "PkDecrypt L (c_pkh c p) pw = (None, k)"
      "r = (Some (CommandCompleted []), None)"
      "c' = c\<lparr>c_pkh := (c_pkh c)(p := k), c_errorCounterPW1 := DEFAULT_PW1_ERROR_COUNTER\<rparr>"
  | e k where "pv_Encrypted (c_pkh c p)" "c_errorCounterPW1 c \<noteq> 0" "pw \<noteq> []"
      "PkDecrypt L (c_pkh c p) pw = (Some e, k)"
      "r = (Some (VerifyFail (c_errorCounterPW1 c - 1)), None)"
      "c' = c\<lparr>c_pkh := (c_pkh c)(p := k), c_errorCounterPW1 := c_errorCounterPW1 c - 1\<rparr>"
proof (cases "pw = [] \<or> \<not> pv_Encrypted (c_pkh c p) \<or> c_errorCounterPW1 c = 0")
  case True
  then have "c' = c"
    using assms by (auto simp: verify_pin_def Let_def split: if_splits)
  then show ?thesis ..
next
  case False
  obtain err k where dec: "PkDecrypt L (c_pkh c p) pw = (err, k)"
    by (cases "PkDecrypt L (c_pkh c p) pw")
  show ?thesis
  proof (cases err)
    case None
    with False dec assms show ?thesis
      by (intro that(2)) (auto simp: verify_pin_def)
  next
    case (Some e)
    with False dec assms show ?thesis
      by (intro that(3)) (auto simp: verify_pin_def Let_def)
  qed
qed

lemma verify_pin_slot_ok:
  assumes "pgp_ok L" and "verify_pin L p pw c = (r, c')" and "slot_ok c sk cache"
  shows "slot_ok c' sk cache"
proof -
  have "pv_Fingerprint k = pv_Fingerprint (c_pkh c p)" if "PkDecrypt L (c_pkh c p) pw = (e, k)" for e k
    using assms(1) that unfolding pgp_ok_def by (metis snd_conv)
  then show ?thesis
    using assms(2,3) by (elim verify_pin_cases) (auto simp: slot_ok_def split: option.splits prod.splits)
qed

lemma verify_pin_counter:
  assumes "verify_pin L p pw c = (r, c')" and "c_errorCounterPW1 c \<le> 3"
  shows "c_errorCounterPW1 c' \<le> 3"
proof -
  have "n - 1 \<le> 3" if "n \<noteq> 0" "n \<le> 3" for n :: byte
    using that by (simp add: word_le_nat_alt unat_minus_one)
  then show ?thesis
    using assms by (elim verify_pin_cases) auto
qed

lemma verify_pin_frame:
  assumes "verify_pin L p pw c = (r, c')"
  shows "card_identity c' = card_identity c" and "c_pknext c' = c_pknext c" and "c_skh c' = c_skh c"
    and "c_selected c' = c_selected c" and "c_rng c' = c_rng c"
    and "c_digitalSignatureCounter c' = c_digitalSignatureCounter c"
    and "card_power c' = card_power c"
  using assms by (elim verify_pin_cases; simp add: card_identity_def card_power_def)+

lemma verify_pin_inv:
  assumes "pgp_ok L" and "verify_pin L p pw c = (r, c')" and "card_inv c"
  shows "card_inv c'"
  using verify_pin_slot_ok [OF assms(1,2)] verify_pin_counter [OF assms(2)] assms(3)
  unfolding card_inv_def card_identityD [OF verify_pin_frame(1) [OF assms(2)]] by blast

lemma verify_pin_blocked:
  "verify_pin L p pw c = (r, c') \<Longrightarrow> c_errorCounterPW1 c = 0 \<Longrightarrow> c' = c"
  by (elim verify_pin_cases) auto

text \<open>Every result of \<^verbatim>\<open>Verify\<close> comes from one of its branches.\<close>

definition pin_slot :: "byte \<Rightarrow> card \<Rightarrow> nat option" where
  "pin_slot p2 c = (if p2 = PW1_CDS then c_Sig c else if p2 = PW1 then c_Dec c else None)"

lemma pin_slot_PW3 [simp]: "pin_slot PW3 c = None"
  by (simp add: pin_slot_def)

lemma Verify_alt:
  "Verify L p1 p2 pw c =
     map_option (\<lambda>(r, c'). (r, signalVerificationStatus c'))
       (case subkey_priv c (pin_slot p2 c) of
          None \<Rightarrow> Some ((Some (CommandNotAllowed L), None), c)
        | Some (a, p) \<Rightarrow>
            if p1 = PW_VERIFY then Some (verify_pin L p pw c)
            else if p1 = PW_LOCK then lock_key a p c
            else Some ((Some (CommandNotAllowed L), None), c))"
  by (simp add: Verify_def subkey_priv_def flip: pin_slot_def)

lemma Verify_cases:
  assumes "Verify L p1 p2 pw c = Some (r, c')"
  obtains "c' = signalVerificationStatus c"
  | a p c1 where "p1 = PW_VERIFY" "subkey_priv c (pin_slot p2 c) = Some (a, p)"
      "verify_pin L p pw c = (r, c1)" "c' = signalVerificationStatus c1"
  | a p k where "p1 = PW_LOCK" "subkey_priv c (pin_slot p2 c) = Some (a, p)"
      "\<not> pv_Encrypted (c_pkh c p)" "Restore c (pin_slot p2 c) = Some k"
      "c' = signalVerificationStatus (set_private a k c)"
proof (cases "subkey_priv c (pin_slot p2 c)")
  case None
  with assms show ?thesis
    by (intro that(1)) (simp add: Verify_alt)
next
  case (Some ap)
  obtain a p where ap: "ap = (a, p)"
    by (cases ap)
  consider "p1 = PW_VERIFY" | "p1 = PW_LOCK" | "p1 \<noteq> PW_VERIFY" "p1 \<noteq> PW_LOCK"
    by blast
  then show ?thesis
  proof cases
    case 1
    with assms Some ap show ?thesis
      by (intro that(2) [of a p "snd (verify_pin L p pw c)"]) (auto simp: Verify_alt split: prod.splits)
  next
    case 2
    with assms Some ap obtain c1 where "lock_key a p c = Some (r, c1)"
      and c': "c' = signalVerificationStatus c1"
      by (auto simp: Verify_alt)
    then show ?thesis
      using 2 Some ap subkey_priv_Some [of c "pin_slot p2 c" a p]
      by (elim lock_key_cases) (auto intro: that(1) that(3))
  next
    case 3
    with assms Some ap show ?thesis
      by (intro that(1)) (simp add: Verify_alt)
  qed
qed

lemma Verify_identity:
  "Verify L p1 p2 pw c = Some (r, c') \<Longrightarrow> card_identity c' = card_identity c"
  by (erule Verify_cases) (simp_all add: frame_simps verify_pin_frame)

lemma Verify_inv:
  assumes "pgp_ok L" and "card_inv c" and "Verify L p1 p2 pw c = Some (r, c')"
  shows "card_inv c'"
  using assms(3)
  by (rule Verify_cases) (auto simp: assms(2) intro: verify_pin_inv [OF assms(1) _ assms(2)]
      set_private_inv [OF assms(2)])

lemma Verify_led: "Verify L p1 p2 pw c = Some (r, c') \<Longrightarrow> led_ok c'"
  by (erule Verify_cases) (simp_all add: signal_led_ok)

text \<open>A slot of an initialized card has the recorded fingerprint and an address in use.\<close>

lemma card_inv_slot_ok:
  assumes "card_inv c" and "sk \<in> {c_Sig c, c_Dec c}"
  shows "\<exists>cache. slot_ok c sk cache"
  using assms by (auto simp: card_inv_def)

lemma locked_not_relocated:
  assumes "subkey_priv c (Some a) = Some (a, p)" and "\<not> pv_Encrypted (c_pkh c p)"
    and "slot_locked c sk"
  shows "sk \<noteq> Some a"
  using assms by (auto simp: slot_locked_def)

lemma Verify_lock_keeps_locked:
  assumes "card_inv c" and "Verify L p1 p2 pw c = Some (r, c')" and "p1 \<noteq> PW_VERIFY"
    and "sk \<in> {c_Sig c, c_Dec c}" and "slot_locked c sk"
  shows "slot_locked c' sk"
  using assms(2)
proof (cases rule: Verify_cases)
  case (3 a p k)
  then have "sk \<noteq> Some a"
    using locked_not_relocated assms(5) subkey_priv_Some by metis
  with 3 card_inv_slot_ok [OF assms(1,4)] assms(5) show ?thesis
    by (auto intro: set_private_locked)
qed (use assms in simp_all)

lemma Verify_blocked_keeps_locked:
  assumes "card_inv c" and "Verify L p1 p2 pw c = Some (r, c')" and "c_errorCounterPW1 c = 0"
    and "sk \<in> {c_Sig c, c_Dec c}" and "slot_locked c sk"
  shows "slot_locked c' sk"
proof (cases "p1 = PW_VERIFY")
  case True
  with assms(2,3) have "c' = signalVerificationStatus c"
    by (auto elim!: Verify_cases dest: verify_pin_blocked)
  with assms(5) show ?thesis
    by simp
qed (use assms Verify_lock_keeps_locked in blast)

lemma Verify_counter_zero:
  assumes "Verify L p1 p2 pw c = Some (r, c')" and "c_errorCounterPW1 c = 0"
  shows "c_errorCounterPW1 c' = 0"
  using assms by (auto elim!: Verify_cases dest: verify_pin_blocked simp: frame_simps)

lemma Verify_lock_counter:
  assumes "Verify L p1 p2 pw c = Some (r, c')" and "p1 \<noteq> PW_VERIFY"
  shows "c_errorCounterPW1 c' = c_errorCounterPW1 c"
  using assms by (auto elim!: Verify_cases simp: frame_simps)

lemma Verify_frame:
  assumes "Verify L p1 p2 pw c = Some (r, c')"
  shows "c_digitalSignatureCounter c' = c_digitalSignatureCounter c"
    and "c_selected c' = c_selected c" and "c_rng c' = c_rng c" and "card_power c' = card_power c"
  using assms by (elim Verify_cases; simp add: frame_simps verify_pin_frame)+

lemma Verify_power: "Verify L p1 p2 pw c = Some (r, c') \<Longrightarrow> power_ok c' = power_ok c"
  by (rule power_ok_cong) (rule Verify_frame(4))

section \<open>The contract of a card operation\<close>

text \<open>Running a sequence of operations, each with its own argument; a panic ends it.\<close>

fun run_seq :: "('l \<Rightarrow> 'a \<Rightarrow> 's \<Rightarrow> ('r \<times> 's) option) \<Rightarrow> 'l \<Rightarrow> 'a list \<Rightarrow> 's \<Rightarrow> ('r list \<times> 's) option" where
  "run_seq f L [] s = Some ([], s)"
| "run_seq f L (x # xs) s =
     do { (r, s1) \<leftarrow> f L x s; (rs, s2) \<leftarrow> run_seq f L xs s1; Some (r # rs, s2) }"

lemma run_seq_Cons_Some:
  "run_seq f L (x # xs) s = Some (rs, s2) \<longleftrightarrow>
     (\<exists>r s1 rs'. f L x s = Some (r, s1) \<and> run_seq f L xs s1 = Some (rs', s2) \<and> rs = r # rs')"
  by (auto simp: bind_eq_Some_conv split: prod.splits)

text \<open>
  Every operation keeps the card's identity and \<open>card_inv\<close>, leaves the blue LED truthful, and
  respects the retry counter: once it is zero it stays zero and locked keys stay locked.
\<close>

locale card_handler =
  fixes run :: "('x) pgplib_scheme \<Rightarrow> 'a \<Rightarrow> card \<Rightarrow> ('r \<times> card) option"
  assumes identity: "run L x c = Some (r, c') \<Longrightarrow> card_identity c' = card_identity c"
    and inv: "pgp_ok L \<Longrightarrow> card_inv c \<Longrightarrow> run L x c = Some (r, c') \<Longrightarrow> card_inv c'"
    and led: "led_ok c \<Longrightarrow> run L x c = Some (r, c') \<Longrightarrow> led_ok c'"
    and blocked: "run L x c = Some (r, c') \<Longrightarrow> c_errorCounterPW1 c = 0 \<Longrightarrow> c_errorCounterPW1 c' = 0"
    and blocked_locked: "card_inv c \<Longrightarrow> run L x c = Some (r, c') \<Longrightarrow> c_errorCounterPW1 c = 0 \<Longrightarrow>
      sk \<in> {c_Sig c, c_Dec c} \<Longrightarrow> slot_locked c sk \<Longrightarrow> slot_locked c' sk"
    and power: "power_ok c \<Longrightarrow> run L x c = Some (r, c') \<Longrightarrow> power_ok c'"
begin

lemma seq_power: "power_ok c \<Longrightarrow> run_seq run L xs c = Some (rs, c') \<Longrightarrow> power_ok c'"
  by (induction xs arbitrary: c rs) (auto simp: run_seq_Cons_Some simp del: run_seq.simps(2) dest: power)

lemma seq_identity: "run_seq run L xs c = Some (rs, c') \<Longrightarrow> card_identity c' = card_identity c"
  by (induction xs arbitrary: c rs) (auto simp: run_seq_Cons_Some simp del: run_seq.simps(2) dest!: identity)

lemma seq_inv:
  "pgp_ok L \<Longrightarrow> card_inv c \<Longrightarrow> run_seq run L xs c = Some (rs, c') \<Longrightarrow> card_inv c'"
  by (induction xs arbitrary: c rs) (auto simp: run_seq_Cons_Some simp del: run_seq.simps(2) dest: inv)

lemma seq_led: "led_ok c \<Longrightarrow> run_seq run L xs c = Some (rs, c') \<Longrightarrow> led_ok c'"
  by (induction xs arbitrary: c rs) (auto simp: run_seq_Cons_Some simp del: run_seq.simps(2) dest: led)

lemma seq_blocked:
  assumes "pgp_ok L" and "card_inv c" and "run_seq run L xs c = Some (rs, c')"
    and "c_errorCounterPW1 c = 0"
  shows "c_errorCounterPW1 c' = 0 \<and>
    (\<forall>sk \<in> {c_Sig c, c_Dec c}. slot_locked c sk \<longrightarrow> slot_locked c' sk)"
  using assms(2-4)
proof (induction xs arbitrary: c rs)
  case (Cons x xs)
  then obtain r c1 rs' where step: "run L x c = Some (r, c1)"
    and rest: "run_seq run L xs c1 = Some (rs', c')"
    by (auto simp: run_seq_Cons_Some simp del: run_seq.simps(2))
  have "card_inv c1" and "c_errorCounterPW1 c1 = 0"
    using inv [OF assms(1) Cons.prems(1) step] blocked [OF step Cons.prems(3)] .
  with Cons.IH [OF this(1) rest this(2)] blocked_locked [OF Cons.prems(1) step Cons.prems(3)]
  show ?case
    using card_identityD(1,2) [OF identity [OF step]] by auto
qed simp

end

section \<open>What locking does to the keys\<close>

text \<open>
  The key a slot refers to, whether the two slots with a passphrase are different subkeys, and
  the relation of the slots before and after an operation that can only lock keys: the same key,
  or an unlocked one replaced by the copy \<^verbatim>\<open>Restore\<close> finds.
\<close>

definition slot_key :: "card \<Rightarrow> nat option \<Rightarrow> privkey option" where
  "slot_key c sk = map_option (\<lambda>(a, p). c_pkh c p) (subkey_priv c sk)"

definition distinct_slots :: "card \<Rightarrow> bool" where
  "distinct_slots c =
     (case subkey_priv c (c_Sig c) of
        None \<Rightarrow> True
      | Some (a, p) \<Rightarrow>
          (case subkey_priv c (c_Dec c) of None \<Rightarrow> True | Some (b, q) \<Rightarrow> a \<noteq> b \<and> p \<noteq> q))"

definition slot_relocked :: "card \<Rightarrow> card \<Rightarrow> nat option \<Rightarrow> bool" where
  "slot_relocked c c' sk \<longleftrightarrow>
     slot_key c' sk = slot_key c sk \<or>
     (\<exists>k k'. slot_key c sk = Some k \<and> \<not> pv_Encrypted k \<and> Restore c sk = Some k' \<and> slot_key c' sk = Some k')"

definition pins_kept :: "card \<Rightarrow> card \<Rightarrow> bool" where
  "pins_kept c c' \<longleftrightarrow>
     (distinct_slots c \<longrightarrow> distinct_slots c') \<and> (\<forall>sk \<in> {c_Sig c, c_Dec c}. slot_relocked c c' sk)"

lemma slot_key_Some_iff: "slot_key c sk = Some k \<longleftrightarrow> (\<exists>a p. subkey_priv c sk = Some (a, p) \<and> c_pkh c p = k)"
  by (auto simp: slot_key_def)

lemma slot_locked_key: "slot_locked c sk \<longleftrightarrow> (\<exists>k. slot_key c sk = Some k \<and> pv_Encrypted k)"
  by (auto simp: slot_locked_def slot_key_def split: option.splits)

lemma Restore_key:
  "Restore c sk =
     Option.bind (slot_key c sk)
       (\<lambda>k. find (\<lambda>k'. pv_Fingerprint k' = pv_Fingerprint k) [c_sig c, c_dec c, c_aut c])"
  by (auto simp: Restore_def slot_key_def split: option.splits)

lemma Restore_key_fingerprint:
  "slot_key c sk = Some k \<Longrightarrow> Restore c sk = Some k' \<Longrightarrow> pv_Fingerprint k' = pv_Fingerprint k"
  by (auto simp: Restore_key split: if_splits)

lemma pins_kept_refl [simp]: "pins_kept c c"
  by (simp add: pins_kept_def slot_relocked_def)

lemma slot_relocked_trans:
  assumes "slot_relocked c c1 sk" and "slot_relocked c1 c' sk" and "card_identity c1 = card_identity c"
  shows "slot_relocked c c' sk"
proof (cases "slot_key c1 sk = slot_key c sk")
  case True
  then have "Restore c1 sk = Restore c sk"
    by (simp add: Restore_key card_identityD [OF assms(3)])
  with True assms(2) show ?thesis
    by (simp add: slot_relocked_def)
next
  case False
  then obtain k k1 where k: "slot_key c sk = Some k" "\<not> pv_Encrypted k" "Restore c sk = Some k1"
    "slot_key c1 sk = Some k1"
    using assms(1) by (auto simp: slot_relocked_def)
  have "Restore c1 sk = Restore c sk"
    using k(1,4) Restore_key_fingerprint [OF k(1,3)]
    by (simp only: Restore_key card_identityD [OF assms(3)] bind.bind_lunit)
  with k assms(2) show ?thesis
    by (auto simp: slot_relocked_def)
qed

lemma pins_kept_trans:
  assumes "pins_kept c c1" and "pins_kept c1 c'" and "card_identity c1 = card_identity c"
  shows "pins_kept c c'"
  using assms slot_relocked_trans card_identityD(1,2) [OF assms(3)]
  unfolding pins_kept_def by metis

lemma same_keys_pins:
  assumes "same_keys c c'" and "card_identity c' = card_identity c"
  shows "pins_kept c c'"
  unfolding pins_kept_def slot_relocked_def distinct_slots_def slot_key_def same_keys_slots(1) [OF assms(1)]
    same_keysD [OF assms(1)] card_identityD(1,2) [OF assms(2)]
  by simp

lemma slot_key_set_private:
  assumes "slot_ok c sk cache"
  shows "slot_key (set_private a k c) sk = (if sk = Some a then Some k else slot_key c sk)"
  using assms
  by (auto simp: slot_key_def subkey_priv_set_private frame_simps slot_ok_def split: option.splits)

lemma distinct_slots_set_private:
  assumes "card_inv c" and "distinct_slots c" and "subkey_priv c (Some a) = Some (a, p)"
  shows "distinct_slots (set_private a k c)"
  using assms
  by (auto simp: distinct_slots_def card_inv_def slot_ok_def subkey_priv_set_private
      card_identityD [OF set_private_frame(1)] split: option.splits if_splits dest: subkey_priv_Some)

lemma set_private_pins:
  assumes "card_inv c" and "subkey_priv c sk = Some (a, p)" and "\<not> pv_Encrypted (c_pkh c p)"
    and "Restore c sk = Some k"
  shows "pins_kept c (set_private a k c)"
proof -
  have sk: "sk = Some a" "slot_key c sk = Some (c_pkh c p)"
    using assms(2) subkey_priv_Some by (auto simp: slot_key_def)
  have "slot_relocked c (set_private a k c) sk'" if "sk' \<in> {c_Sig c, c_Dec c}" for sk'
    using card_inv_slot_ok [OF assms(1) that] sk assms(3,4)
    by (auto simp: slot_relocked_def slot_key_set_private)
  then show ?thesis
    using distinct_slots_set_private [OF assms(1)] sk(1) assms(2) by (simp add: pins_kept_def)
qed

lemma signal_pins: "pins_kept c (signalVerificationStatus c)"
  by (rule same_keys_pins) (simp_all add: frame_simps)

lemma Verify_lock_pins:
  assumes "card_inv c" and "Verify L p1 p2 pw c = Some (r, c')" and "p1 \<noteq> PW_VERIFY"
  shows "pins_kept c c'"
  using assms(2)
proof (cases rule: Verify_cases)
  case (3 a p k)
  then show ?thesis
    using pins_kept_trans [OF set_private_pins [OF assms(1) 3(2-4)] signal_pins]
    by (simp add: frame_simps)
qed (use assms(3) signal_pins in auto)

text \<open>
  A quiet operation never unlocks a key and never touches the retry counter; \<open>quiet_step\<close>
  is the relation it leaves between the states, which composes.
\<close>

definition quiet_step :: "card \<Rightarrow> card \<Rightarrow> bool" where
  "quiet_step c c' \<longleftrightarrow>
     card_identity c' = card_identity c \<and> (card_inv c \<longrightarrow> card_inv c') \<and> (led_ok c \<longrightarrow> led_ok c') \<and>
     c_errorCounterPW1 c' = c_errorCounterPW1 c \<and>
     (card_inv c \<longrightarrow> (\<forall>sk \<in> {c_Sig c, c_Dec c}. slot_locked c sk \<longrightarrow> slot_locked c' sk)) \<and>
     (card_inv c \<longrightarrow> pins_kept c c') \<and> (power_ok c \<longrightarrow> power_ok c')"

lemma quiet_step_refl [simp]: "quiet_step c c"
  by (simp add: quiet_step_def)

lemma quiet_step_trans [trans]: "quiet_step c c1 \<Longrightarrow> quiet_step c1 c' \<Longrightarrow> quiet_step c c'"
  using card_identityD(1,2) [of c1 c] pins_kept_trans [of c c1 c'] by (simp add: quiet_step_def)

lemma same_keys_quiet:
  assumes "same_keys c c'" and "card_identity c' = card_identity c"
    and "c_errorCounterPW1 c' = c_errorCounterPW1 c" and "c_led_blue c' = c_led_blue c"
    and "power_ok c \<Longrightarrow> power_ok c'"
  shows "quiet_step c c'"
  using same_keys_inv [OF assms(1-3)] same_keys_slots(2,3) [OF assms(1)]
    card_identityD(1,2) [OF assms(2)] same_keys_pins [OF assms(1,2)] assms(2-5)
  by (simp add: quiet_step_def led_ok_def)

locale quiet_handler =
  fixes run :: "('x) pgplib_scheme \<Rightarrow> 'a \<Rightarrow> card \<Rightarrow> ('r \<times> card) option"
  assumes quiet_identity: "run L x c = Some (r, c') \<Longrightarrow> card_identity c' = card_identity c"
    and quiet_inv: "card_inv c \<Longrightarrow> run L x c = Some (r, c') \<Longrightarrow> card_inv c'"
    and quiet_led: "led_ok c \<Longrightarrow> run L x c = Some (r, c') \<Longrightarrow> led_ok c'"
    and quiet_counter: "run L x c = Some (r, c') \<Longrightarrow> c_errorCounterPW1 c' = c_errorCounterPW1 c"
    and quiet_locked: "card_inv c \<Longrightarrow> run L x c = Some (r, c') \<Longrightarrow> sk \<in> {c_Sig c, c_Dec c} \<Longrightarrow>
      slot_locked c sk \<Longrightarrow> slot_locked c' sk"
    and quiet_pins: "card_inv c \<Longrightarrow> run L x c = Some (r, c') \<Longrightarrow> pins_kept c c'"
    and quiet_power: "power_ok c \<Longrightarrow> run L x c = Some (r, c') \<Longrightarrow> power_ok c'"
begin

lemma run_quiet: "run L x c = Some (r, c') \<Longrightarrow> quiet_step c c'"
  using quiet_identity quiet_inv quiet_led quiet_counter quiet_locked quiet_pins
    quiet_power by (auto simp: quiet_step_def)

end

sublocale quiet_handler \<subseteq> card_handler
  by unfold_locales
    (auto dest: quiet_identity quiet_inv quiet_led quiet_counter quiet_locked quiet_power)

text \<open>An operation that leaves the slots, both heaps and the blue LED alone is quiet.\<close>

locale passive_handler =
  fixes run :: "('x) pgplib_scheme \<Rightarrow> 'a \<Rightarrow> card \<Rightarrow> ('r \<times> card) option"
  assumes passive_identity: "run L x c = Some (r, c') \<Longrightarrow> card_identity c' = card_identity c"
    and passive_keys: "run L x c = Some (r, c') \<Longrightarrow> same_keys c c'"
    and passive_led: "run L x c = Some (r, c') \<Longrightarrow> c_led_blue c' = c_led_blue c"
    and passive_counter: "run L x c = Some (r, c') \<Longrightarrow> c_errorCounterPW1 c' = c_errorCounterPW1 c"
    and passive_power: "run L x c = Some (r, c') \<Longrightarrow> card_power c' = card_power c"
begin

lemma passive_slots:
  assumes "run L x c = Some (r, c')"
  shows "slot_locked c' sk = slot_locked c sk" and "slot_unlocked c' sk = slot_unlocked c sk"
  using same_keys_slots [OF passive_keys [OF assms]] by auto

end

sublocale passive_handler \<subseteq> quiet_handler
proof
  fix L :: "('x) pgplib_scheme" and x c r c' sk
  assume run: "run L x c = Some (r, c')"
  note same = passive_keys [OF run] passive_identity [OF run] passive_counter [OF run]
  show "card_identity c' = card_identity c" and "c_errorCounterPW1 c' = c_errorCounterPW1 c"
    by (fact same(2), fact same(3))
  show "card_inv c \<Longrightarrow> card_inv c'"
    using same_keys_inv [OF same] by simp
  show "led_ok c \<Longrightarrow> led_ok c'"
    using passive_slots [OF run] passive_led [OF run] card_identityD(1,2) [OF same(2)]
    by (simp add: led_ok_def)
  show "slot_locked c sk \<Longrightarrow> slot_locked c' sk"
    using passive_slots [OF run] by simp
  show "pins_kept c c'"
    by (rule same_keys_pins [OF same(1,2)])
  show "power_ok c \<Longrightarrow> power_ok c'"
    using power_ok_cong [OF passive_power [OF run]] by simp
qed

interpretation verify: card_handler "\<lambda>L (p1, p2, pw) c. Verify L p1 p2 pw c"
  by unfold_locales
    (auto dest: Verify_identity Verify_inv Verify_led Verify_counter_zero Verify_blocked_keeps_locked
      Verify_power)

lemma Verify_lock_inv:
  assumes "card_inv c" and "Verify L p1 p2 pw c = Some (r, c')" and "p1 \<noteq> PW_VERIFY"
  shows "card_inv c'"
  using assms(2) by (rule Verify_cases) (use assms in \<open>auto intro: set_private_inv\<close>)

text \<open>Without \<^verbatim>\<open>PW_VERIFY\<close>, \<^verbatim>\<open>Verify\<close> is quiet whatever passphrase comes with it.\<close>

lemma Verify_quiet:
  assumes "Verify L p1 p2 pw c = Some (r, c')" and "p1 \<noteq> PW_VERIFY"
  shows "quiet_step c c'"
  unfolding quiet_step_def
  using Verify_identity [OF assms(1)] Verify_led [OF assms(1)] Verify_lock_inv [OF _ assms]
    Verify_lock_counter [OF assms] Verify_lock_keeps_locked [OF _ assms] Verify_lock_pins [OF _ assms]
    Verify_power [OF assms(1)]
  by simp

interpretation lock: quiet_handler "\<lambda>L p2 c. Verify L PW_LOCK p2 [] c"
  by unfold_locales
    (auto dest: Verify_identity Verify_led Verify_lock_inv Verify_lock_counter Verify_lock_keeps_locked
      Verify_lock_pins Verify_power)

end
