(* ===== verification/Tlv.thy ===== *)
theory Tlv
  imports GoPrelude "HOL-Library.Sublist"
begin

text \<open>
  The simple-TLV codec of \<^verbatim>\<open>src/internal/icc/tlv.go\<close>: \<open>tlv\<close> builds a data object,
  \<open>tlv_v\<close> (the Go function \<^verbatim>\<open>v\<close>) extracts the value of the object a buffer starts
  with. \<open>ber_value\<close> is the reference decoder of the length field of OpenPGP card 3.4,
  section 4.4.4; the lemmas compare both functions with it.
\<close>

section \<open>The code\<close>

definition tlv :: "nat \<Rightarrow> bytes \<Rightarrow> bytes" where
  "tlv t val =
     (let l = length val;
          tag = (if t > 0xff then be_put16 (of_nat t) else [of_nat t]);
          len = (if l \<le> 0x7f then [of_nat l]
                 else if length val \<le> 0xff then [0x81, of_nat l]
                 else [0x82, of_nat (drop_bit 8 l AND 0xff), of_nat (l AND 0xff)])
      in tag @ len @ val)"

text \<open>The end of \<^verbatim>\<open>v\<close>: the bounds check and the returned slice.\<close>

definition tlv_take :: "bytes \<Rightarrow> nat \<Rightarrow> nat \<Rightarrow> bytes option" where
  "tlv_take buf i l = (if length buf < i + l then Some [] else subslice buf i (i + l))"

text \<open>
  The length field of \<^verbatim>\<open>v\<close>, read at index \<open>i\<close>. The 0x82 branch reads a two-byte integer
  from the one-byte slice \<^verbatim>\<open>buf[i+1 : i+2]\<close>, and the 0x81 guard lets \<^verbatim>\<open>buf[i+1]\<close>
  run out of range.
\<close>

definition tlv_length_field :: "bytes \<Rightarrow> nat \<Rightarrow> bytes option" where
  "tlv_length_field buf i =
     do {
       b \<leftarrow> idx buf i;
       if b \<le> 0x7f then tlv_take buf (i + 1) (unat b)
       else if b = 0x81 then
         (if length buf < i + 1 then Some []
          else do { l \<leftarrow> idx buf (i + 1); tlv_take buf (i + 2) (unat l) })
       else if b = 0x82 then
         (if length buf < i + 2 then Some []
          else do {
            s \<leftarrow> subslice buf (i + 1) (i + 2);
            l \<leftarrow> be_uint16 s;
            tlv_take buf (i + 2) (unat l) })
       else tlv_take buf i 0
     }"

definition tlv_v :: "bytes \<Rightarrow> nat \<Rightarrow> bytes option" where
  "tlv_v buf t =
     (if length buf < 1 then Some []
      else if t > 0xff then
        (if length buf < 2 then Some []
         else if be_put16 (of_nat t) \<noteq> take 2 buf then Some []
         else tlv_length_field buf 2)
      else
        do {
          b \<leftarrow> idx buf 0;
          if of_nat t \<noteq> b then Some [] else tlv_length_field buf 1
        })"

section \<open>The reference decoder\<close>

definition tag_bytes :: "nat \<Rightarrow> bytes" where
  "tag_bytes t = (if t > 0xff then be_put16 (of_nat t) else [of_nat t])"

definition ber_split :: "bytes \<Rightarrow> nat \<Rightarrow> (bytes \<times> bytes) option" where
  "ber_split rest l = (if l \<le> length rest then Some (take l rest, drop l rest) else None)"

fun ber_length :: "bytes \<Rightarrow> (bytes \<times> bytes) option" where
  "ber_length (b # rest) =
     (if b \<le> 0x7f then ber_split rest (unat b)
      else if b = 0x81 then
        (case rest of l # r \<Rightarrow> ber_split r (unat l) | _ \<Rightarrow> None)
      else if b = 0x82 then
        (case be_uint16 rest of Some l \<Rightarrow> ber_split (drop 2 rest) (unat l) | None \<Rightarrow> None)
      else None)"
| "ber_length [] = None"

text \<open>The value of the object with tag \<open>t\<close> at the head of the buffer, and what follows it.\<close>

definition ber_value :: "nat \<Rightarrow> bytes \<Rightarrow> (bytes \<times> bytes) option" where
  "ber_value t buf =
     (if length (tag_bytes t) \<le> length buf \<and> take (length (tag_bytes t)) buf = tag_bytes t
      then ber_length (drop (length (tag_bytes t)) buf) else None)"

section \<open>Shared lemmas\<close>

lemma nat_and_255: "(n :: nat) AND 0xff = take_bit 8 n"
  by (simp add: take_bit_eq_mask mask_eq_exp_minus_1)

lemma tlv_alt:
  "tlv t val = tag_bytes t @
     (if length val \<le> 0x7f then [of_nat (length val)]
      else if length val \<le> 0xff then [0x81, of_nat (length val)]
      else 0x82 # be_put16 (of_nat (length val))) @ val"
proof -
  have hi: "of_nat (drop_bit 8 l AND 0xff) = (ucast (drop_bit 8 (of_nat l :: u16)) :: byte)"
    and lo: "of_nat (l AND 0xff) = (ucast (of_nat l :: u16) :: byte)" for l
    unfolding nat_and_255 by (auto intro!: bit_word_eqI simp: bit_simps)
  show ?thesis
    unfolding tlv_def tag_bytes_def Let_def be_put16_def hi unfolding lo ..
qed

lemma length_tag_bytes: "length (tag_bytes t) = (if t > 0xff then 2 else 1)"
  by (simp add: tag_bytes_def)

lemma length_tlv:
  "length (tlv t val) =
     length (tag_bytes t) + (if length val \<le> 0x7f then 1 else if length val \<le> 0xff then 2 else 3)
     + length val"
  by (simp add: tlv_alt)

lemma tlv_v_alt:
  "tlv_v buf t =
     (if take (length (tag_bytes t)) buf = tag_bytes t
      then tlv_length_field buf (length (tag_bytes t)) else Some [])"
proof (cases "t > 0xff")
  case True
  then show ?thesis
    using length_put(1) [of "of_nat t"] by (auto simp: tlv_v_def tag_bytes_def dest: arg_cong [of _ _ length])
next
  case False
  then show ?thesis
    by (cases buf) (auto simp: tlv_v_def tag_bytes_def)
qed

lemma tlv_take_append: "tlv_take (xs @ ys) (length xs + i) l = tlv_take ys i l"
  by (simp add: tlv_take_def add.assoc)

lemma tlv_length_field_append:
  "tlv_length_field (xs @ ys) (length xs) = tlv_length_field ys 0"
  unfolding tlv_length_field_def idx_append_0 idx_append subslice_append tlv_take_append
    tlv_take_append [of xs ys 0, simplified] length_append nat_add_left_cancel_less add_0 ..

lemma unat_small_byte: "n \<le> 0xff \<Longrightarrow> unat (of_nat n :: byte) = n"
  by (simp add: unat_of_nat)

lemma of_nat_le_7f: "n \<le> 0xff \<Longrightarrow> (of_nat n :: byte) \<le> 0x7f \<longleftrightarrow> n \<le> 0x7f"
  by (simp add: word_le_nat_alt unat_small_byte)

lemmas tlv_field_simps = tlv_length_field_def tlv_take_def idx_def subslice_def

section \<open>Round trips and failures\<close>

lemma tlv_v_tlv:
  assumes "length val \<le> 0xff"
  shows "tlv_v (tlv t val @ rest) t = Some val"
proof -
  have "tlv_v (tlv t val @ rest) t =
    tlv_length_field ((if length val \<le> 0x7f then [of_nat (length val)]
      else [0x81, of_nat (length val)]) @ val @ rest) 0"
    using assms by (simp add: tlv_v_alt tlv_alt tlv_length_field_append)
  also have "\<dots> = Some val"
    using assms of_nat_le_7f [OF assms]
    by (cases "length val \<le> 0x7f") (simp_all add: tlv_field_simps unat_small_byte)
  finally show ?thesis .
qed

text \<open>
  Extracting the value of an object built by \<^verbatim>\<open>tlv\<close> gives it back, whatever follows
  it in the buffer, for every one- or two-byte tag and every value of up to 255 bytes.
\<close>

theorem tlv_roundtrip:
  assumes "length val \<le> 0xff"
  shows "tlv_v (tlv t val @ rest) t = Some val"
  using assms by (rule tlv_v_tlv)

theorem tlv_roundtrip_witness:
  "length [0xaa, 0xbb :: byte] \<le> 0xff \<and>
   tlv_v (tlv 0x7f49 [0xaa, 0xbb] @ [0x01]) 0x7f49 = Some [0xaa, 0xbb]"
  using tlv_roundtrip [of "[0xaa, 0xbb]" "0x7f49" "[0x01]"] by simp

lemma ber_value_tlv:
  assumes "length val \<le> 0xffff"
  shows "ber_value t (tlv t val @ rest) = Some (val, rest)"
proof -
  have "ber_value t (tlv t val @ rest) =
    ber_length ((if length val \<le> 0x7f then [of_nat (length val)]
      else if length val \<le> 0xff then [0x81, of_nat (length val)]
      else 0x82 # be_put16 (of_nat (length val))) @ val @ rest)"
    by (simp add: ber_value_def tlv_alt)
  also have "\<dots> = Some (val, rest)"
  proof -
    consider "length val \<le> 0x7f" | "\<not> length val \<le> 0x7f" "length val \<le> 0xff"
      | "\<not> length val \<le> 0xff" by blast
    then show ?thesis
    proof cases
      case 1
      then have "(of_nat (length val) :: byte) \<le> 0x7f"
        by (simp add: of_nat_le_7f)
      with 1 show ?thesis
        by (simp add: ber_split_def unat_small_byte)
    next
      case 2
      then show ?thesis
        by (simp add: ber_split_def unat_small_byte)
    next
      case 3
      with assms show ?thesis
        by (simp add: ber_split_def be16.dec_enc unat_of_nat)
    qed
  qed
  finally show ?thesis .
qed

text \<open>
  C40. The encoder is right for every value a two-byte length can describe: the reference decoder
  recovers the value and the bytes that follow it. Hence objects concatenated in a template can
  be told apart.
\<close>

theorem tlv_ber_roundtrip:
  assumes "length val \<le> 0xffff"
  shows "ber_value t (tlv t val @ rest) = Some (val, rest)"
  using assms by (rule ber_value_tlv)

theorem tlv_ber_roundtrip_witness:
  "length (replicate 300 (7 :: byte)) \<le> 0xffff \<and>
   ber_value 0x81 (tlv 0x81 (replicate 300 7) @ [1]) = Some (replicate 300 7, [1])"
  using tlv_ber_roundtrip [of "replicate 300 7" "0x81" "[1]"] by simp

text \<open>
  The decoder cannot read the three-byte length form its own encoder writes: on an object of
  256 bytes or more \<^verbatim>\<open>v\<close> always panics.
\<close>

theorem tlv_v_long_panics:
  assumes "0xff < length val"
  shows "tlv_v (tlv t val @ rest) t = None"
proof -
  obtain a b where ab: "be_put16 (of_nat (length val)) = [a, b]"
    by (simp add: be_put16_def)
  have "tlv_v (tlv t val @ rest) t = tlv_length_field ([0x82, a, b] @ val @ rest) 0"
    using assms by (simp add: tlv_v_alt tlv_alt tlv_length_field_append ab)
  also have "\<dots> = None"
    by (simp add: tlv_field_simps)
  finally show ?thesis .
qed

theorem tlv_v_long_panics_witness:
  "0xff < length (replicate 256 (0 :: byte)) \<and> tlv_v (tlv 0x86 (replicate 256 0) @ []) 0x86 = None"
  using tlv_v_long_panics [of "replicate 256 0" "0x86" "[]"] by simp

lemma sublist_subslice: "subslice xs lo hi = Some ys \<Longrightarrow> sublist ys xs"
  by (metis append_take_drop_id sublist_appendI subslice_eq_Some_iff)

lemma tlv_take_sublist: "tlv_take buf i l = Some r \<Longrightarrow> sublist r buf"
  by (auto simp: tlv_take_def split: if_splits dest: sublist_subslice)

lemma tlv_length_field_sublist: "tlv_length_field buf i = Some r \<Longrightarrow> sublist r buf"
  by (auto simp: tlv_length_field_def bind_eq_Some_conv split: if_splits dest: tlv_take_sublist)

text \<open>
  Whatever \<^verbatim>\<open>v\<close> returns is a contiguous part of its input: no length field makes it
  return bytes from outside the buffer.
\<close>

theorem tlv_v_within_buffer:
  assumes "tlv_v buf t = Some r"
  shows "sublist r buf"
  using assms by (auto simp: tlv_v_alt split: if_splits dest: tlv_length_field_sublist)

theorem tlv_v_within_buffer_witness:
  "tlv_v [0x86, 2, 9, 8, 7] 0x86 = Some [9, 8] \<and> sublist [9, 8 :: byte] [0x86, 2, 9, 8, 7]"
proof -
  have h: "tlv_v [0x86, 2, 9, 8, 7] 0x86 = Some [9, 8]"
    by (simp add: tlv_v_def tlv_field_simps)
  show ?thesis
    using h tlv_v_within_buffer [OF h] by simp
qed

text \<open>
  Exactly when \<^verbatim>\<open>v\<close> panics: the buffer starts with the tag and then ends before the
  length byte, ends inside an 0x81 length, or carries an 0x82 length.
\<close>

theorem tlv_v_panics_iff:
  "tlv_v buf t = None \<longleftrightarrow>
     (\<exists>rest. buf = tag_bytes t @ rest \<and>
        (rest = [] \<or> rest = [0x81] \<or> (\<exists>b tl. rest = 0x82 # b # tl)))"
proof (cases "take (length (tag_bytes t)) buf = tag_bytes t")
  case True
  then obtain rest where buf: "buf = tag_bytes t @ rest"
    by (metis append_take_drop_id)
  have "tlv_length_field rest 0 = None \<longleftrightarrow>
      rest = [] \<or> rest = [0x81] \<or> (\<exists>b tl. rest = 0x82 # b # tl)"
    by (cases rest rule: be_uint16.cases) (auto simp: tlv_field_simps)
  with buf show ?thesis
    by (simp add: tlv_v_alt tlv_length_field_append)
next
  case False
  then show ?thesis
    by (auto simp: tlv_v_alt)
qed

end
