(* ===== verification/CardData.thy ===== *)
theory CardData
  imports SampleCard CardInv Tlv
begin

text \<open>
  The data objects of the card, \<^verbatim>\<open>src/internal/icc/data.go\<close>: GET DATA, PUT DATA and the
  public key templates of GENERATE ASYMMETRIC KEY PAIR. The objects are nested TLV templates;
  \<open>ber_objects\<close> decodes such a template with the reference decoder of \<open>Tlv\<close>, and the
  theorems read the card's objects back through it.
\<close>

section \<open>Constants\<close>

definition RID :: bytes where
  "RID = [0xd2, 0x76, 0x00, 0x01, 0x24, 0x01]"

definition HISTORICAL_BYTES :: bytes where
  "HISTORICAL_BYTES = [0x00, 0x31, 0x84, 0x73, 0x80, 0x01, 0x40, 0x00, 0x90, 0x00]"

definition ATR_header :: bytes where
  "ATR_header = [0x3b, 0xda, 0x11, 0xff, 0x81, 0xb1, 0xfe, 0x55, 0x1f, 0x03]"

text \<open>\<^verbatim>\<open>init\<close>: the historical bytes and the checksum over all but the first byte.\<close>

definition ATR :: bytes where
  "ATR = (let atr = ATR_header @ HISTORICAL_BYTES;
              tck = foldl (\<lambda>t b. t XOR b) 0 (drop 1 atr)
          in atr @ [tck])"

definition EXTENDED_CAPABILITIES :: bytes where
  "EXTENDED_CAPABILITIES = [0x42, 0x00, 0xff, 0xff, 0xff, 0xff, 0xff, 0xff, 0x00, 0x00]"

definition EXTENDED_LENGTH :: bytes where
  "EXTENDED_LENGTH = [0x02, 0x02, 0x0b, 0xfe, 0x02, 0x02, 0x0b, 0xfe]"

text \<open>The tags and the other constants of the specification.\<close>

abbreviation (input) DO_APPLICATION_IDENTIFIER :: "'a :: numeral" where "DO_APPLICATION_IDENTIFIER \<equiv> 0x4f"
abbreviation (input) DO_LOGIN_DATA :: "'a :: numeral" where "DO_LOGIN_DATA \<equiv> 0x5e"
abbreviation (input) DO_URL :: "'a :: numeral" where "DO_URL \<equiv> 0x5f50"
abbreviation (input) DO_HISTORICAL_BYTES :: "'a :: numeral" where "DO_HISTORICAL_BYTES \<equiv> 0x5f52"
abbreviation (input) DO_CARDHOLDER_RELATED_DATA :: "'a :: numeral" where "DO_CARDHOLDER_RELATED_DATA \<equiv> 0x65"
abbreviation (input) DO_APPLICATION_RELATED_DATA :: "'a :: numeral" where "DO_APPLICATION_RELATED_DATA \<equiv> 0x6e"
abbreviation (input) DO_SECURITY_SUPPORT_TEMPLATE :: "'a :: numeral" where "DO_SECURITY_SUPPORT_TEMPLATE \<equiv> 0x7a"
abbreviation (input) DO_EXTENDED_LENGTH_INFORMATION :: "'a :: numeral" where "DO_EXTENDED_LENGTH_INFORMATION \<equiv> 0x7f66"
abbreviation (input) DO_PW_STATUS_BYTES :: "'a :: numeral" where "DO_PW_STATUS_BYTES \<equiv> 0xc4"
abbreviation (input) DO_KEY_INFORMATION :: "'a :: numeral" where "DO_KEY_INFORMATION \<equiv> 0xde"
abbreviation (input) DO_ALGORITHM_INFORMATION :: "'a :: numeral" where "DO_ALGORITHM_INFORMATION \<equiv> 0xfa"
abbreviation (input) DO_NAME :: "'a :: numeral" where "DO_NAME \<equiv> 0x5b"
abbreviation (input) DO_LANGUAGE :: "'a :: numeral" where "DO_LANGUAGE \<equiv> 0x5f2d"
abbreviation (input) DO_SEX :: "'a :: numeral" where "DO_SEX \<equiv> 0x5f35"
abbreviation (input) DO_DISCRETIONARY_DATA_OBJECTS :: "'a :: numeral" where "DO_DISCRETIONARY_DATA_OBJECTS \<equiv> 0x73"
abbreviation (input) DO_EXTENDED_CAPABILITIES :: "'a :: numeral" where "DO_EXTENDED_CAPABILITIES \<equiv> 0xc0"
abbreviation (input) DO_ALGORITHM_ATTRIBUTES_SIG :: "'a :: numeral" where "DO_ALGORITHM_ATTRIBUTES_SIG \<equiv> 0xc1"
abbreviation (input) DO_ALGORITHM_ATTRIBUTES_DEC :: "'a :: numeral" where "DO_ALGORITHM_ATTRIBUTES_DEC \<equiv> 0xc2"
abbreviation (input) DO_ALGORITHM_ATTRIBUTES_AUT :: "'a :: numeral" where "DO_ALGORITHM_ATTRIBUTES_AUT \<equiv> 0xc3"
abbreviation (input) DO_FINGERPRINTS :: "'a :: numeral" where "DO_FINGERPRINTS \<equiv> 0xc5"
abbreviation (input) DO_CA_FINGERPRINTS :: "'a :: numeral" where "DO_CA_FINGERPRINTS \<equiv> 0xc6"
abbreviation (input) DO_GENERATION_EPOCHS :: "'a :: numeral" where "DO_GENERATION_EPOCHS \<equiv> 0xcd"
abbreviation (input) DO_DIGITAL_SIGNATURE_COUNTER :: "'a :: numeral" where "DO_DIGITAL_SIGNATURE_COUNTER \<equiv> 0x93"
abbreviation (input) DO_RSA_MOD :: "'a :: numeral" where "DO_RSA_MOD \<equiv> 0x81"
abbreviation (input) DO_RSA_EXP :: "'a :: numeral" where "DO_RSA_EXP \<equiv> 0x82"
abbreviation (input) RSA_ALGO :: byte where "RSA_ALGO \<equiv> 0x01"
abbreviation (input) KEY_SIG :: byte where "KEY_SIG \<equiv> 0x01"
abbreviation (input) KEY_DEC :: byte where "KEY_DEC \<equiv> 0x02"
abbreviation (input) KEY_AUT :: byte where "KEY_AUT \<equiv> 0x03"
abbreviation (input) KEY_IMPORTED :: byte where "KEY_IMPORTED \<equiv> 0x02"
abbreviation (input) PW1_MAX_LENGTH :: byte where "PW1_MAX_LENGTH \<equiv> 127"
abbreviation (input) RC_MAX_LENGTH :: byte where "RC_MAX_LENGTH \<equiv> 127"
abbreviation (input) PW3_MAX_LENGTH :: byte where "PW3_MAX_LENGTH \<equiv> 127"
abbreviation (input) RSA_KEY_SIZE :: u16 where "RSA_KEY_SIZE \<equiv> 4096"
abbreviation (input) RSA_EXPONENT_SIZE :: u16 where "RSA_EXPONENT_SIZE \<equiv> 32"
abbreviation (input) DO_PUB_KEY :: nat where "DO_PUB_KEY \<equiv> 0x7f49"
abbreviation (input) DO_EXT_PUB_KEY :: nat where "DO_EXT_PUB_KEY \<equiv> 0x86"
abbreviation (input) IMPORT_FORMAT_STANDARD :: byte where "IMPORT_FORMAT_STANDARD \<equiv> 0x00"

section \<open>Data objects\<close>

definition AID :: "card \<Rightarrow> bytes" where
  "AID c = RID @ [0x03, 0x04] @ [0xF5, 0xEC] @ c_Serial c @ [0x00, 0x00]"

definition card_ATR :: "card \<Rightarrow> bytes" where
  "card_ATR c = ATR"

definition CardholderRelatedData :: "card \<Rightarrow> bytes" where
  "CardholderRelatedData c =
     tlv DO_CARDHOLDER_RELATED_DATA (tlv DO_NAME (str_bytes (c_Name c)) @ tlv DO_LANGUAGE (str_bytes (c_Language c)) @
       tlv DO_SEX (str_bytes (c_Sex c)))"

definition AlgorithmAttributes :: "card \<Rightarrow> nat option \<Rightarrow> bytes" where
  "AlgorithmAttributes c sk =
     (case sk of
        None \<Rightarrow> [RSA_ALGO] @ be_put16 RSA_KEY_SIZE @ be_put16 RSA_EXPONENT_SIZE @ [IMPORT_FORMAT_STANDARD]
      | Some a \<Rightarrow>
          (case sk_PublicKey (c_skh c a) of
             None \<Rightarrow> [RSA_ALGO] @ be_put16 RSA_KEY_SIZE @ be_put16 RSA_EXPONENT_SIZE @ [IMPORT_FORMAT_STANDARD]
           | Some pub \<Rightarrow>
               (case pub_PublicKey pub of
                  RsaPub n e \<Rightarrow>
                    [RSA_ALGO] @ be_put16 (of_nat (bit_len n)) @ be_put16 RSA_EXPONENT_SIZE @ [IMPORT_FORMAT_STANDARD]
                | EcdsaPub k \<Rightarrow>
                    [pub_PubKeyAlgo pub] @ getOID (CurveName k) @ [IMPORT_FORMAT_STANDARD]
                | EcdhPub k \<Rightarrow>
                    [pub_PubKeyAlgo pub] @ getOID (CurveName k) @ [IMPORT_FORMAT_STANDARD]
                | OtherPub \<Rightarrow> [RSA_ALGO, 0, 0, 0, 0, IMPORT_FORMAT_STANDARD])))"

definition PWStatusBytes :: "card \<Rightarrow> bytes" where
  "PWStatusBytes c =
     [PW1_CDS_MULTI, push_bit 1 PW1_MAX_LENGTH AND 0b11111110, RC_MAX_LENGTH, PW3_MAX_LENGTH,
      c_errorCounterPW1 c, c_errorCounterRC c, c_errorCounterPW3 c]"

text \<open>\<^verbatim>\<open>copy(fingerprints[i*20:], fp)\<close> for each element that is not nil.\<close>

fun put_fingerprints :: "nat \<Rightarrow> bytes option list \<Rightarrow> bytes \<Rightarrow> bytes option" where
  "put_fingerprints i [] buf = Some buf"
| "put_fingerprints i (None # fps) buf = put_fingerprints (Suc i) fps buf"
| "put_fingerprints i (Some fp # fps) buf =
     do { buf' \<leftarrow> copy_at buf (i * 20) fp; put_fingerprints (Suc i) fps buf' }"

text \<open>\<^verbatim>\<open>subkey.PublicKey\<close> of a subkey that is not nil; without public key it panics.\<close>

definition slot_public :: "card \<Rightarrow> nat option \<Rightarrow> pubkey option option" where
  "slot_public c sk =
     (case sk of
        None \<Rightarrow> Some None
      | Some a \<Rightarrow> (case sk_PublicKey (c_skh c a) of None \<Rightarrow> None | Some pub \<Rightarrow> Some (Some pub)))"

definition Fingerprints :: "card \<Rightarrow> bytes option" where
  "Fingerprints c =
     do {
       s \<leftarrow> slot_public c (c_Sig c);
       d \<leftarrow> slot_public c (c_Dec c);
       a \<leftarrow> slot_public c (c_Aut c);
       put_fingerprints 0 (map (map_option pub_Fingerprint) [s, d, a]) (replicate 60 0)
     }"

definition CAFingerprints :: "card \<Rightarrow> bytes option" where
  "CAFingerprints c = put_fingerprints 0 (c_CA c) (replicate 60 0)"

definition epoch_bytes :: "pubkey option \<Rightarrow> bytes" where
  "epoch_bytes pub =
     (case pub of None \<Rightarrow> replicate 4 0 | Some k \<Rightarrow> be_put32 (of_int (pub_CreationTime k)))"

definition GenerationEpochs :: "card \<Rightarrow> bytes option" where
  "GenerationEpochs c =
     do {
       s \<leftarrow> slot_public c (c_Sig c);
       d \<leftarrow> slot_public c (c_Dec c);
       a \<leftarrow> slot_public c (c_Aut c);
       Some (epoch_bytes s @ epoch_bytes d @ epoch_bytes a)
     }"

definition DiscretionaryData :: "card \<Rightarrow> bytes option" where
  "DiscretionaryData c =
     do {
       fps \<leftarrow> Fingerprints c;
       cas \<leftarrow> CAFingerprints c;
       eps \<leftarrow> GenerationEpochs c;
       Some (tlv DO_EXTENDED_CAPABILITIES EXTENDED_CAPABILITIES @
         tlv DO_ALGORITHM_ATTRIBUTES_SIG (AlgorithmAttributes c (c_Sig c)) @
         tlv DO_ALGORITHM_ATTRIBUTES_DEC (AlgorithmAttributes c (c_Dec c)) @
         tlv DO_ALGORITHM_ATTRIBUTES_AUT (AlgorithmAttributes c (c_Aut c)) @
         tlv DO_PW_STATUS_BYTES (PWStatusBytes c) @ tlv DO_FINGERPRINTS fps @ tlv DO_CA_FINGERPRINTS cas @ tlv DO_GENERATION_EPOCHS eps)
     }"

definition KeyInformation :: bytes where
  "KeyInformation = [KEY_SIG, KEY_IMPORTED, KEY_DEC, KEY_IMPORTED, KEY_AUT, KEY_IMPORTED]"

definition AlgorithmInformation :: "card \<Rightarrow> bytes" where
  "AlgorithmInformation c =
     tlv DO_ALGORITHM_ATTRIBUTES_SIG (AlgorithmAttributes c (c_Sig c)) @
     tlv DO_ALGORITHM_ATTRIBUTES_DEC (AlgorithmAttributes c (c_Dec c)) @
     tlv DO_ALGORITHM_ATTRIBUTES_AUT (AlgorithmAttributes c (c_Aut c))"

definition DigitalSignatureCounter :: "card \<Rightarrow> bytes \<times> card" where
  "DigitalSignatureCounter c =
     (let c' = (if c_digitalSignatureCounter c > 0xffffff
                then c\<lparr>c_digitalSignatureCounter := 0\<rparr> else c);
          counter = be_put32 (c_digitalSignatureCounter c')
      in (take 3 (drop 1 counter), c'))"

definition SecuritySupportTemplate :: "card \<Rightarrow> bytes \<times> card" where
  "SecuritySupportTemplate c =
     (let (counter, c') = DigitalSignatureCounter c in (tlv DO_SECURITY_SUPPORT_TEMPLATE (tlv DO_DIGITAL_SIGNATURE_COUNTER counter), c'))"

definition ApplicationRelatedData :: "card \<Rightarrow> bytes option" where
  "ApplicationRelatedData c =
     do {
       dd \<leftarrow> DiscretionaryData c;
       Some (tlv DO_APPLICATION_RELATED_DATA (tlv DO_APPLICATION_IDENTIFIER (AID c) @ tlv DO_HISTORICAL_BYTES HISTORICAL_BYTES @
         tlv DO_EXTENDED_LENGTH_INFORMATION EXTENDED_LENGTH @ tlv DO_DISCRETIONARY_DATA_OBJECTS dd))
     }"

section \<open>Commands\<close>

definition ok_body :: "bytes \<Rightarrow> card \<Rightarrow> reply \<times> card" where
  "ok_body body c = ((Some (CommandCompleted body), None), c)"

text \<open>
  GET DATA. The last branch assigns \<^verbatim>\<open>SW1\<close> twice (0x6a, then 0x88) and leaves
  \<^verbatim>\<open>SW2\<close> at 0x00.
\<close>

definition GetData :: "('x) pgplib_scheme \<Rightarrow> u16 \<Rightarrow> card \<Rightarrow> (reply \<times> card) option" where
  "GetData L tag c =
     (if tag = DO_APPLICATION_IDENTIFIER then Some (ok_body (AID c) c)
      else if tag = DO_LOGIN_DATA then Some (ok_body (c_LoginData c) c)
      else if tag = DO_URL then Some (ok_body (str_bytes (c_URL c)) c)
      else if tag = DO_HISTORICAL_BYTES then Some (ok_body HISTORICAL_BYTES c)
      else if tag = DO_CARDHOLDER_RELATED_DATA then Some (ok_body (CardholderRelatedData c) c)
      else if tag = DO_APPLICATION_RELATED_DATA then map_option (\<lambda>d. ok_body d c) (ApplicationRelatedData c)
      else if tag = DO_SECURITY_SUPPORT_TEMPLATE then
        Some (let (d, c') = SecuritySupportTemplate c in ok_body d c')
      else if tag = DO_EXTENDED_LENGTH_INFORMATION then Some (ok_body EXTENDED_LENGTH c)
      else if tag = DO_PW_STATUS_BYTES then Some (ok_body (PWStatusBytes c) c)
      else if tag = DO_KEY_INFORMATION then Some (ok_body KeyInformation c)
      else if tag = DO_ALGORITHM_INFORMATION then Some (ok_body (AlgorithmInformation c) c)
      else Some ((Some ((CommandCompleted [])\<lparr>SW1 := 0x6a\<rparr>\<lparr>SW1 := 0x88\<rparr>), None), c))"

definition PutData :: "('x) pgplib_scheme \<Rightarrow> u16 \<Rightarrow> card \<Rightarrow> (reply \<times> card) option" where
  "PutData L tag c = Some ((Some (CommandNotAllowed L), None), c)"

text \<open>The public key object of the template, or the error for an unknown key type.\<close>

definition public_key_data :: "pubmat \<Rightarrow> goerr + bytes" where
  "public_key_data pub =
     (case pub of
        RsaPub n e \<Rightarrow> Inr (tlv DO_RSA_MOD (nat_bytes n) @ tlv DO_RSA_EXP (be_put32 (of_int e)))
      | EcdsaPub k \<Rightarrow> Inr (tlv DO_EXT_PUB_KEY (MarshalPoint k))
      | EcdhPub k \<Rightarrow> Inr (tlv DO_EXT_PUB_KEY (MarshalPoint k))
      | OtherPub \<Rightarrow> Inl (GoErr ''unexpected public key type in GENERATE''))"

definition crt_slot :: "bytes \<Rightarrow> card \<Rightarrow> nat option option" where
  "crt_slot crt c =
     (if crt = [0xb6, 0x00] \<or> crt = [0xb6, 0x03, 0x84, 0x01, 0x01] then Some (c_Sig c)
      else if crt = [0xb8, 0x00] \<or> crt = [0xb8, 0x03, 0x84, 0x01, 0x02] then Some (c_Dec c)
      else if crt = [0xa4, 0x00] \<or> crt = [0xa4, 0x03, 0x84, 0x01, 0x03] then Some (c_Aut c)
      else None)"

definition GenerateAsymmetricKeyPair ::
    "('x) pgplib_scheme \<Rightarrow> u16 \<Rightarrow> bytes \<Rightarrow> card \<Rightarrow> (reply \<times> card) option" where
  "GenerateAsymmetricKeyPair L params crt c =
     (if params = 0x8000 then Some ((Some (CommandNotAllowed L), None), c)
      else if params \<noteq> 0x8100 then Some ((Some (CommandNotAllowed L), None), c)
      else
        case crt_slot crt c of
          None \<Rightarrow> Some ((Some (CommandNotAllowed L), None), c)
        | Some None \<Rightarrow> Some ((Some ReferencedDataNotFound, None), c)
        | Some (Some a) \<Rightarrow>
            (case sk_PublicKey (c_skh c a) of
               None \<Rightarrow> None
             | Some pub \<Rightarrow>
                 (case public_key_data (pub_PublicKey pub) of
                    Inl err \<Rightarrow> Some ((Some (CommandNotAllowed L), Some err), c)
                  | Inr d \<Rightarrow> Some (ok_body (tlv DO_PUB_KEY d) c))))"

section \<open>The commands keep the contract\<close>

lemma DigitalSignatureCounter_frame:
  assumes "DigitalSignatureCounter c = (d, c')"
  shows "card_identity c' = card_identity c" "same_keys c c'" "c_led_blue c' = c_led_blue c"
    "c_errorCounterPW1 c' = c_errorCounterPW1 c" "c_rng c' = c_rng c" "c_selected c' = c_selected c"
    "card_power c' = card_power c"
  using assms by (auto simp: DigitalSignatureCounter_def Let_def card_identity_def same_keys_def card_power_def
      split: if_splits)

lemma GetData_cases:
  assumes "GetData L tag c = Some (r, c')"
  obtains "c' = c" | d where "tag = DO_SECURITY_SUPPORT_TEMPLATE" "DigitalSignatureCounter c = (d, c')"
  using assms
  by (auto simp: GetData_def ok_body_def SecuritySupportTemplate_def split: if_splits prod.splits)

interpretation get_data: passive_handler GetData
  by unfold_locales
    (auto elim!: GetData_cases dest: DigitalSignatureCounter_frame simp: same_keys_def)

interpretation put_data: passive_handler PutData
  by unfold_locales (auto simp: PutData_def same_keys_def)

lemma GenerateAsymmetricKeyPair_state:
  "GenerateAsymmetricKeyPair L params crt c = Some (r, c') \<Longrightarrow> c' = c"
  by (auto simp: GenerateAsymmetricKeyPair_def ok_body_def split: if_splits option.splits sum.splits)

interpretation generate: passive_handler "\<lambda>L (params, crt) c. GenerateAsymmetricKeyPair L params crt c"
  by unfold_locales (auto dest!: GenerateAsymmetricKeyPair_state simp: same_keys_def)

section \<open>Reading objects back\<close>

text \<open>The values of a sequence of objects with the given tags that fills the buffer.\<close>

fun ber_objects :: "nat list \<Rightarrow> bytes \<Rightarrow> bytes list option" where
  "ber_objects [] buf = (if buf = [] then Some [] else None)"
| "ber_objects (t # ts) buf =
     do { (x, rest) \<leftarrow> ber_value t buf; xs \<leftarrow> ber_objects ts rest; Some (x # xs) }"

lemma ber_objects_concat:
  assumes "list_all (\<lambda>(t, x). length x \<le> 0xffff) objs"
  shows "ber_objects (map fst objs) (concat (map (\<lambda>(t, x). tlv t x) objs)) = Some (map snd objs)"
  using assms
proof (induction objs)
  case (Cons o' objs)
  then show ?case
    by (cases o') (simp add: ber_value_tlv)
qed simp

lemma ber_objects_1: "length x \<le> 0xffff \<Longrightarrow> ber_objects [t] (tlv t x) = Some [x]"
  using ber_objects_concat [of "[(t, x)]"] by simp

text \<open>Sizes: every object fits the length field.\<close>

lemma length_getOID: "length (getOID name) \<le> 9"
  by (simp add: getOID_def)

lemma length_AlgorithmAttributes: "length (AlgorithmAttributes c sk) \<le> 11"
  by (auto simp: AlgorithmAttributes_def length_getOID split: option.split pubmat.split)

lemma length_put_fingerprints:
  "put_fingerprints i fps buf = Some r \<Longrightarrow> length r = length buf"
  by (induction i fps buf arbitrary: r rule: put_fingerprints.induct)
    (auto simp: bind_eq_Some_conv dest: length_copy_at)

lemma length_Fingerprints: "Fingerprints c = Some r \<Longrightarrow> length r = 60"
  by (auto simp: Fingerprints_def bind_eq_Some_conv dest!: length_put_fingerprints
      simp del: put_fingerprints.simps)

lemma length_CAFingerprints: "CAFingerprints c = Some r \<Longrightarrow> length r = 60"
  by (auto simp: CAFingerprints_def dest!: length_put_fingerprints)

lemma length_epoch_bytes [simp]: "length (epoch_bytes p) = 4"
  by (simp add: epoch_bytes_def split: option.split)

lemma length_GenerationEpochs: "GenerationEpochs c = Some r \<Longrightarrow> length r = 12"
  by (auto simp: GenerationEpochs_def bind_eq_Some_conv)

lemma length_constants [simp]:
  "length EXTENDED_CAPABILITIES = 10" "length (PWStatusBytes c) = 7"
  "length HISTORICAL_BYTES = 10" "length EXTENDED_LENGTH = 8"
  by (simp_all add: EXTENDED_CAPABILITIES_def PWStatusBytes_def HISTORICAL_BYTES_def
      EXTENDED_LENGTH_def)

lemmas object_lengths = length_Fingerprints length_CAFingerprints length_GenerationEpochs

lemma DiscretionaryData_Some:
  assumes "DiscretionaryData c = Some dd"
  obtains fps cas eps where "Fingerprints c = Some fps" "CAFingerprints c = Some cas"
    "GenerationEpochs c = Some eps"
    "dd = concat (map (\<lambda>(t, x). tlv t x)
       [(0xc0, EXTENDED_CAPABILITIES), (0xc1, AlgorithmAttributes c (c_Sig c)),
        (0xc2, AlgorithmAttributes c (c_Dec c)), (0xc3, AlgorithmAttributes c (c_Aut c)),
        (0xc4, PWStatusBytes c), (0xc5, fps), (0xc6, cas), (0xcd, eps)])"
  using assms by (auto simp: DiscretionaryData_def bind_eq_Some_conv)

lemma length_DiscretionaryData: "DiscretionaryData c = Some dd \<Longrightarrow> length dd \<le> 0xff"
proof (elim DiscretionaryData_Some)
  fix fps cas eps
  assume lens: "Fingerprints c = Some fps" "CAFingerprints c = Some cas" "GenerationEpochs c = Some eps"
    and dd: "dd = concat (map (\<lambda>(t, x). tlv t x)
       [(0xc0, EXTENDED_CAPABILITIES), (0xc1, AlgorithmAttributes c (c_Sig c)),
        (0xc2, AlgorithmAttributes c (c_Dec c)), (0xc3, AlgorithmAttributes c (c_Aut c)),
        (0xc4, PWStatusBytes c), (0xc5, fps), (0xc6, cas), (0xcd, eps)])"
  have alg: "length (tlv t (AlgorithmAttributes c sk)) \<le> 13" if "t \<le> 0xff" for t sk
    using that length_AlgorithmAttributes [of c sk] by (simp add: length_tlv length_tag_bytes)
  show ?thesis
    using alg [of "0xc1" "c_Sig c"] alg [of "0xc2" "c_Dec c"] alg [of "0xc3" "c_Aut c"] lens
    by (simp add: dd length_tlv [of _ EXTENDED_CAPABILITIES] length_tlv [of _ "PWStatusBytes c"]
        length_tlv [of _ fps] length_tlv [of _ cas] length_tlv [of _ eps] length_tag_bytes
        object_lengths)
qed

section \<open>Properties\<close>

text \<open>
  The answer to reset is well formed: T0 announces exactly the historical bytes that follow
  the interface bytes, and the exclusive or of all bytes after the first, checksum included, is
  zero, as ISO 7816-3 requires.
\<close>

theorem ATR_wellformed:
  "length ATR = 21 \<and> unat (ATR ! 1 AND 0x0f) = length HISTORICAL_BYTES \<and>
   take 10 (drop 10 ATR) = HISTORICAL_BYTES \<and> foldl (\<lambda>t b. t XOR b) 0 (drop 1 ATR) = 0"
  by (simp add: ATR_def ATR_header_def HISTORICAL_BYTES_def Let_def)

text \<open>
  C35. The application related data (DO 6E) is a template that reads back to its parts: the
  application identifier, the historical bytes, the extended length information and the
  discretionary objects, which in turn read back to the capabilities, the three algorithm
  attributes, the password status and the fingerprint and generation-time lists.
\<close>

theorem ApplicationRelatedData_reads_back:
  assumes "length (c_Serial c) = 4" and "ApplicationRelatedData c = Some d"
  shows "\<exists>inner dd fps cas eps.
     ber_objects [0x6e] d = Some [inner] \<and>
     ber_objects [0x4f, 0x5f52, 0x7f66, 0x73] inner =
       Some [AID c, HISTORICAL_BYTES, EXTENDED_LENGTH, dd] \<and>
     ber_objects [0xc0, 0xc1, 0xc2, 0xc3, 0xc4, 0xc5, 0xc6, 0xcd] dd =
       Some [EXTENDED_CAPABILITIES, AlgorithmAttributes c (c_Sig c),
         AlgorithmAttributes c (c_Dec c), AlgorithmAttributes c (c_Aut c),
         PWStatusBytes c, fps, cas, eps] \<and>
     Fingerprints c = Some fps \<and> CAFingerprints c = Some cas \<and> GenerationEpochs c = Some eps"
proof -
  from assms(2) obtain dd where dd: "DiscretionaryData c = Some dd"
    and d: "d = tlv 0x6e (concat (map (\<lambda>(t, x). tlv t x)
      [(0x4f, AID c), (0x5f52, HISTORICAL_BYTES), (0x7f66, EXTENDED_LENGTH), (0x73, dd)]))"
    by (auto simp: ApplicationRelatedData_def bind_eq_Some_conv)
  from dd obtain fps cas eps where parts: "Fingerprints c = Some fps" "CAFingerprints c = Some cas"
      "GenerationEpochs c = Some eps"
    and dd': "dd = concat (map (\<lambda>(t, x). tlv t x)
       [(0xc0, EXTENDED_CAPABILITIES), (0xc1, AlgorithmAttributes c (c_Sig c)),
        (0xc2, AlgorithmAttributes c (c_Dec c)), (0xc3, AlgorithmAttributes c (c_Aut c)),
        (0xc4, PWStatusBytes c), (0xc5, fps), (0xc6, cas), (0xcd, eps)])"
    by (rule DiscretionaryData_Some)
  have aid: "length (AID c) = 16"
    by (simp add: AID_def RID_def assms(1))
  let ?objs = "[(0x4f, AID c), (0x5f52, HISTORICAL_BYTES), (0x7f66, EXTENDED_LENGTH), (0x73, dd)]"
  have alg: "length (AlgorithmAttributes c sk) \<le> 65535" for sk
    using length_AlgorithmAttributes [of c sk] by simp
  have "length (concat (map (\<lambda>(t, x). tlv t x) ?objs)) \<le> 0xffff"
    using length_DiscretionaryData [OF dd] aid by (simp add: length_tlv length_tag_bytes)
  then have "ber_objects [0x6e] d = Some [concat (map (\<lambda>(t, x). tlv t x) ?objs)]"
    unfolding d by (rule ber_objects_1)
  moreover have "ber_objects [0x4f, 0x5f52, 0x7f66, 0x73] (concat (map (\<lambda>(t, x). tlv t x) ?objs)) =
      Some [AID c, HISTORICAL_BYTES, EXTENDED_LENGTH, dd]"
    using ber_objects_concat [of ?objs] length_DiscretionaryData [OF dd] aid
    by (simp del: ber_objects.simps)
  moreover have "ber_objects [0xc0, 0xc1, 0xc2, 0xc3, 0xc4, 0xc5, 0xc6, 0xcd] dd =
      Some [EXTENDED_CAPABILITIES, AlgorithmAttributes c (c_Sig c),
        AlgorithmAttributes c (c_Dec c), AlgorithmAttributes c (c_Aut c),
        PWStatusBytes c, fps, cas, eps]"
    using ber_objects_concat [of "[(0xc0, EXTENDED_CAPABILITIES),
        (0xc1, AlgorithmAttributes c (c_Sig c)), (0xc2, AlgorithmAttributes c (c_Dec c)),
        (0xc3, AlgorithmAttributes c (c_Aut c)), (0xc4, PWStatusBytes c), (0xc5, fps), (0xc6, cas),
        (0xcd, eps)]"] parts alg
    by (simp add: dd' object_lengths del: ber_objects.simps)
  ultimately show ?thesis
    using parts by blast
qed

lemma zeros_split: "replicate 60 x = replicate 20 x @ replicate 20 x @ replicate 20 x"
  by (simp flip: replicate_add)

text \<open>
  The fingerprint list (DO C5) holds the three 20-byte fingerprints in the order signature,
  decryption, authentication, and zeros for a key the card does not have.
\<close>

theorem Fingerprints_layout:
  assumes "slot_public c (c_Sig c) = Some s" and "slot_public c (c_Dec c) = Some d"
    and "slot_public c (c_Aut c) = Some a"
    and "\<forall>k \<in> set_option s \<union> set_option d \<union> set_option a. length (pub_Fingerprint k) = 20"
  shows "Fingerprints c = Some (concat (map
     (\<lambda>k. case k of None \<Rightarrow> replicate 20 0 | Some k \<Rightarrow> pub_Fingerprint k) [s, d, a]))"
proof -
  have sizes: "length (pub_Fingerprint k) = 20" if "Some k \<in> {s, d, a}" for k
    using assms(4) that by auto
  show ?thesis
    using sizes assms(1-3)
    by (cases s; cases d; cases a)
      (simp_all add: Fingerprints_def copy_at_def copy_into_def zeros_split)
qed

text \<open>
  The digital signature counter is always reported as a three-byte number below
  \<^verbatim>\<open>2^24\<close>: the counter itself, or zero, also in the card's state, once it has outgrown
  three bytes.
\<close>

theorem DigitalSignatureCounter_reported:
  "\<exists>b c'. DigitalSignatureCounter c = (b, c') \<and> length b = 3 \<and>
     be_uint32 (0 # b) = Some (c_digitalSignatureCounter c') \<and>
     c_digitalSignatureCounter c' \<le> 0xffffff \<and>
     c_digitalSignatureCounter c' =
       (if c_digitalSignatureCounter c \<le> 0xffffff then c_digitalSignatureCounter c else 0)"
proof -
  have hi: "ucast (drop_bit 24 w) = (0 :: byte)" if "w \<le> 0xffffff" for w :: u32
  proof (rule bit_word_eqI)
    fix n assume "n < LENGTH(8)"
    have "drop_bit 24 w = 0"
      using that by (simp add: word_le_nat_alt drop_bit_eq_div word_unat_eq_iff unat_div)
    then show "bit (ucast (drop_bit 24 w) :: byte) n = bit 0 n" by simp
  qed
  have read: "be_uint32 (0 # drop (Suc 0) (be_put32 w)) = Some w" if "w \<le> 0xffffff" for w
    using hi [OF that] be32.dec_enc_exact [of w] by (simp add: be_put32_def)
  show ?thesis
    by (auto simp: DigitalSignatureCounter_def Let_def read not_less be_put32_def [THEN arg_cong [of _ _ length]])
qed

text \<open>
  The public keys of the sample card, for evaluating the objects above on it.
\<close>

lemma sample_card_public [simp]:
  "slot_public sample_card (Some 0) = Some (Some (sample_pub 1))"
  "slot_public sample_card (Some (Suc 0)) = Some (Some (sample_pub 2))"
  "slot_public sample_card None = Some None"
  "c_CA sample_card = []" "c_Serial sample_card = [0, 0, 0, 0]"
  by (simp_all add: slot_public_def sample_card_def blank_card_def)

theorem Fingerprints_layout_witness:
  "Fingerprints sample_card = Some (replicate 20 1 @ replicate 20 2 @ replicate 20 0)"
  using Fingerprints_layout [of sample_card "Some (sample_pub 1)" "Some (sample_pub 2)" None]
  by (simp add: sample_pub_def)

theorem ApplicationRelatedData_reads_back_witness:
  "\<exists>inner. ber_objects [0x6e] (the (ApplicationRelatedData sample_card)) = Some [inner]"
proof -
  have "\<exists>d. ApplicationRelatedData sample_card = Some d"
    by (simp add: ApplicationRelatedData_def DiscretionaryData_def Fingerprints_def
        CAFingerprints_def GenerationEpochs_def copy_at_def)
  then show ?thesis
    using ApplicationRelatedData_reads_back [of sample_card] by fastforce
qed

lemma put_fingerprints_total:
  "i + length fps \<le> 3 \<Longrightarrow> length buf = 60 \<Longrightarrow> \<exists>r. put_fingerprints i fps buf = Some r"
  by (induction i fps buf rule: put_fingerprints.induct)
    (auto simp: copy_at_def)

lemma GetData_returns:
  assumes "\<forall>sk \<in> {c_Sig c, c_Dec c, c_Aut c}. slot_public c sk \<noteq> None" and "length (c_CA c) \<le> 3"
  shows "\<exists>rapdu c'. GetData L tag c = Some ((Some rapdu, None), c')"
proof -
  have "\<exists>r. CAFingerprints c = Some r"
    unfolding CAFingerprints_def by (rule put_fingerprints_total) (use assms(2) in auto)
  moreover obtain s d a where "slot_public c (c_Sig c) = Some s" "slot_public c (c_Dec c) = Some d"
    "slot_public c (c_Aut c) = Some a"
    using assms(1) by auto
  moreover from this have "\<exists>r. Fingerprints c = Some r"
    using put_fingerprints_total [of 0 "map (map_option pub_Fingerprint) [s, d, a]" "replicate 60 0"]
    by (simp add: Fingerprints_def del: put_fingerprints.simps)
  ultimately have "\<exists>d. ApplicationRelatedData c = Some d"
    by (auto simp: ApplicationRelatedData_def DiscretionaryData_def GenerationEpochs_def)
  then show ?thesis
    by (auto simp: GetData_def ok_body_def SecuritySupportTemplate_def split: prod.splits)
qed

text \<open>
  GET DATA is total: it answers every tag when each key slot in use has its public key and
  the card has at most three CA fingerprints.
\<close>

theorem GetData_total:
  assumes "\<forall>sk \<in> {c_Sig c, c_Dec c, c_Aut c}. slot_public c sk \<noteq> None" and "length (c_CA c) \<le> 3"
  shows "\<exists>rapdu c'. GetData L tag c = Some ((Some rapdu, None), c')"
  using assms by (rule GetData_returns)

theorem GetData_total_witness:
  "\<exists>rapdu c'. GetData sample_lib 0x6e sample_card = Some ((Some rapdu, None), c')"
  by (rule GetData_total) simp_all

definition supported_tags :: "u16 list" where
  "supported_tags = [0x4f, 0x5e, 0x5f50, 0x5f52, 0x65, 0x6e, 0x7a, 0x7f66, 0xc4, 0xde, 0xfa]"

text \<open>
  A tag the card does not support is answered with the status 88 00, which no standard
  defines, instead of 6A 88 (referenced data not found), because the second status byte is
  assigned to the first one's field.
\<close>

theorem GetData_unsupported:
  assumes "tag \<notin> set supported_tags"
  shows "\<exists>rapdu. GetData L tag c = Some ((Some rapdu, None), c) \<and>
    SW1 rapdu = 0x88 \<and> SW2 rapdu = 0x00 \<and> rapdu \<noteq> ReferencedDataNotFound"
  using assms
  by (simp add: GetData_def supported_tags_def CommandCompleted_def ReferencedDataNotFound_def)

theorem GetData_unsupported_witness:
  "\<exists>rapdu. GetData sample_lib 0x6f sample_card = Some ((Some rapdu, None), sample_card) \<and>
    SW1 rapdu = 0x88 \<and> SW2 rapdu = 0x00 \<and> rapdu \<noteq> ReferencedDataNotFound"
  by (rule GetData_unsupported) (simp add: supported_tags_def)

text \<open>
  C36. The public key template (DO 7F49) of an RSA key reads back to the modulus and the public
  exponent of the key the request names.
\<close>

theorem Generate_RSA_reads_back:
  assumes "crt_slot crt c = Some (Some a)" and "sk_PublicKey (c_skh c a) = Some pub"
    and "pub_PublicKey pub = RsaPub n e" and "length (nat_bytes n) \<le> 0xfff0"
  shows "\<exists>body inner. GenerateAsymmetricKeyPair L 0x8100 crt c =
       Some ((Some (CommandCompleted body), None), c) \<and>
     ber_objects [0x7f49] body = Some [inner] \<and>
     ber_objects [0x81, 0x82] inner = Some [nat_bytes n, be_put32 (of_int e)]"
proof -
  let ?inner = "tlv 0x81 (nat_bytes n) @ tlv 0x82 (be_put32 (of_int e))"
  have "length ?inner \<le> 0xffff"
    using assms(4) by (simp add: length_tlv length_tag_bytes)
  then have "ber_objects [0x7f49] (tlv 0x7f49 ?inner) = Some [?inner]"
    by (rule ber_objects_1)
  moreover have "ber_objects [0x81, 0x82] ?inner = Some [nat_bytes n, be_put32 (of_int e)]"
    using ber_objects_concat [of "[(0x81, nat_bytes n), (0x82, be_put32 (of_int e))]"] assms(4)
    by (simp del: ber_objects.simps)
  moreover have "GenerateAsymmetricKeyPair L 0x8100 crt c =
      Some ((Some (CommandCompleted (tlv 0x7f49 ?inner)), None), c)"
    using assms by (simp add: GenerateAsymmetricKeyPair_def public_key_data_def ok_body_def)
  ultimately show ?thesis by blast
qed

theorem Generate_RSA_reads_back_witness:
  "\<exists>body inner. GenerateAsymmetricKeyPair sample_lib 0x8100 [0xb6, 0x00] sample_card =
       Some ((Some (CommandCompleted body), None), sample_card) \<and>
     ber_objects [0x7f49] body = Some [inner] \<and>
     ber_objects [0x81, 0x82] inner = Some [nat_bytes 65521, be_put32 (of_int 65537)]"
  by (rule Generate_RSA_reads_back [where a = 0 and pub = "sample_pub 1"])
    (simp_all add: crt_slot_def sample_card_def sample_pub_def nat_bytes.simps)

end
