(* ===== verification/PinMachine.thy ===== *)
theory PinMachine
  imports CardInv SampleCard
begin

text \<open>
  \<^verbatim>\<open>Verify\<close> as a refinement of an abstract PIN machine with a shared retry counter: the
  specification, the abstraction of a card, and the two refinement theorems. They hold for cards
  whose signature and decryption keys are different subkeys; the laws of \<open>CardInv\<close> do not need
  that.
\<close>

section \<open>The abstract PIN machine\<close>

text \<open>
  Two keys, each absent, locked or open, and a number of tries left that they share. A correct
  passphrase opens a locked key and restores the tries, a wrong one costs a try, and with no
  tries left nothing opens any more. An open key accepts any passphrase.
\<close>

datatype key_state = Absent | Locked | Open

datatype pin_ref = SigPin | DecPin

datatype pin_answer = Accepted | Rejected nat | Refused

record pin_state =
  pin_sig :: key_state
  pin_dec :: key_state
  pin_tries :: nat

fun pin_get :: "pin_ref \<Rightarrow> pin_state \<Rightarrow> key_state" where
  "pin_get SigPin s = pin_sig s"
| "pin_get DecPin s = pin_dec s"

fun pin_set :: "pin_ref \<Rightarrow> key_state \<Rightarrow> pin_state \<Rightarrow> pin_state" where
  "pin_set SigPin k s = s\<lparr>pin_sig := k\<rparr>"
| "pin_set DecPin k s = s\<lparr>pin_dec := k\<rparr>"

fun spec_verify :: "bool \<Rightarrow> pin_ref \<Rightarrow> pin_state \<Rightarrow> pin_answer \<times> pin_state" where
  "spec_verify correct r s =
     (case pin_get r s of
        Absent \<Rightarrow> (Refused, s)
      | Open \<Rightarrow> (Accepted, s)
      | Locked \<Rightarrow>
          if pin_tries s = 0 then (Rejected 0, s)
          else if correct then (Accepted, (pin_set r Open s)\<lparr>pin_tries := 3\<rparr>)
          else (Rejected (pin_tries s - 1), s\<lparr>pin_tries := pin_tries s - 1\<rparr>))"

fun spec_lock :: "bool \<Rightarrow> pin_ref \<Rightarrow> pin_state \<Rightarrow> pin_answer \<times> pin_state" where
  "spec_lock protected r s =
     (case pin_get r s of
        Absent \<Rightarrow> (Refused, s)
      | Locked \<Rightarrow> (Accepted, s)
      | Open \<Rightarrow> (Accepted, if protected then pin_set r Locked s else s))"

section \<open>The card as a PIN machine\<close>

fun pin_code :: "pin_ref \<Rightarrow> byte" where
  "pin_code SigPin = PW1_CDS"
| "pin_code DecPin = PW1"

fun pin_key :: "pin_ref \<Rightarrow> card \<Rightarrow> nat option" where
  "pin_key SigPin c = c_Sig c"
| "pin_key DecPin c = c_Dec c"

fun pin_cache :: "pin_ref \<Rightarrow> card \<Rightarrow> privkey" where
  "pin_cache SigPin c = c_sig c"
| "pin_cache DecPin c = c_dec c"

fun pin_reply :: "('x) apdulib_scheme \<Rightarrow> pin_answer \<Rightarrow> reply" where
  "pin_reply L Accepted = (Some (CommandCompleted []), None)"
| "pin_reply L (Rejected n) = (Some (VerifyFail (of_nat n)), None)"
| "pin_reply L Refused = (Some (CommandNotAllowed L), None)"

definition abs_slot :: "card \<Rightarrow> nat option \<Rightarrow> key_state" where
  "abs_slot c sk =
     (case subkey_priv c sk of
        None \<Rightarrow> Absent
      | Some (a, p) \<Rightarrow> if pv_Encrypted (c_pkh c p) then Locked else Open)"

definition abs_pin :: "card \<Rightarrow> pin_state" where
  "abs_pin c = \<lparr>pin_sig = abs_slot c (c_Sig c), pin_dec = abs_slot c (c_Dec c),
     pin_tries = unat (c_errorCounterPW1 c)\<rparr>"

definition passphrase_ok :: "('x) pgplib_scheme \<Rightarrow> card \<Rightarrow> nat option \<Rightarrow> bytes \<Rightarrow> bool" where
  "passphrase_ok L c sk pw =
     (case subkey_priv c sk of None \<Rightarrow> False | Some (a, p) \<Rightarrow> fst (PkDecrypt L (c_pkh c p) pw) = None)"

lemma pin_slot_code [simp]: "pin_slot (pin_code r) c = pin_key r c"
  by (cases r) (simp_all add: pin_slot_def)

lemma pin_get_abs [simp]: "pin_get r (abs_pin c) = abs_slot c (pin_key r c)"
  by (cases r) (simp_all add: abs_pin_def)

lemma pin_tries_abs [simp]: "pin_tries (abs_pin c) = unat (c_errorCounterPW1 c)"
  by (simp add: abs_pin_def)

lemma abs_slot_signal [simp]:
  "abs_slot (signalVerificationStatus c) sk = abs_slot c sk"
  "abs_pin (signalVerificationStatus c) = abs_pin c"
proof -
  show *: "abs_slot (signalVerificationStatus c) sk = abs_slot c sk" for sk
    unfolding abs_slot_def same_keys_slots(1) [OF signal_frame(1)] same_keysD(2) [OF signal_frame(1)] ..
  show "abs_pin (signalVerificationStatus c) = abs_pin c"
    using card_identityD(1,2) [OF signal_frame(2)] by (simp add: abs_pin_def * frame_simps)
qed

lemma abs_pin_opened:
  assumes "distinct_slots c" and "subkey_priv c (pin_key r c) = Some (a, p)"
    and "pv_Encrypted k = pv_Encrypted (c_pkh c p)"
  shows "abs_pin (c\<lparr>c_pkh := (c_pkh c)(p := k), c_errorCounterPW1 := n\<rparr>) =
     (abs_pin c)\<lparr>pin_tries := unat n\<rparr>"
  using assms by (cases r) (auto simp: abs_pin_def abs_slot_def distinct_slots_def split: option.splits)

lemma abs_pin_open:
  assumes "distinct_slots c" and "subkey_priv c (pin_key r c) = Some (a, p)"
    and "\<not> pv_Encrypted k"
  shows "abs_pin (c\<lparr>c_pkh := (c_pkh c)(p := k), c_errorCounterPW1 := n\<rparr>) =
     (pin_set r Open (abs_pin c))\<lparr>pin_tries := unat n\<rparr>"
  using assms by (cases r) (auto simp: abs_pin_def abs_slot_def distinct_slots_def split: option.splits)

lemma verify_refines:
  assumes "pgp_ok L" and "distinct_slots c" and "pw \<noteq> []"
    and "spec_verify (passphrase_ok L c (pin_key r c) pw) r (abs_pin c) = (answer, s')"
  shows "\<exists>c'. Verify L PW_VERIFY (pin_code r) pw c = Some (pin_reply L answer, c') \<and> abs_pin c' = s'"
proof (cases "subkey_priv c (pin_key r c)")
  case None
  then show ?thesis
    using assms(4) by (auto simp: Verify_alt abs_slot_def)
next
  case (Some ap)
  then obtain a p where ap: "subkey_priv c (pin_key r c) = Some (a, p)"
    by (cases ap) auto
  obtain err k where dec: "PkDecrypt L (c_pkh c p) pw = (err, k)"
    by (cases "PkDecrypt L (c_pkh c p) pw")
  have ok: "passphrase_ok L c (pin_key r c) pw \<longleftrightarrow> err = None"
    by (simp add: passphrase_ok_def ap dec)
  have enc: "pv_Encrypted k \<longleftrightarrow> err \<noteq> None \<and> pv_Encrypted (c_pkh c p)"
    using assms(1) dec unfolding pgp_ok_def by (metis fst_conv snd_conv)
  have slot: "abs_slot c (pin_key r c) = (if pv_Encrypted (c_pkh c p) then Locked else Open)"
    by (simp add: abs_slot_def ap)
  have less: "unat (c_errorCounterPW1 c - 1) = unat (c_errorCounterPW1 c) - Suc 0"
    if "c_errorCounterPW1 c \<noteq> 0"
    using that by (simp add: unat_minus_one)
  then have less_word: "of_nat (unat (c_errorCounterPW1 c) - Suc 0) = c_errorCounterPW1 c - 1"
    if "c_errorCounterPW1 c \<noteq> 0"
    using that by (metis of_nat_unat ucast_id)
  show ?thesis
  proof (cases "pv_Encrypted (c_pkh c p) \<and> c_errorCounterPW1 c \<noteq> 0")
    case True
    then show ?thesis
      using assms(3,4) ap dec ok enc slot less less_word
      by (cases err)
        (auto simp: Verify_alt verify_pin_def Let_def unat_eq_zero abs_pin_open [OF assms(2) ap]
          abs_pin_opened [OF assms(2) ap])
  next
    case False
    with assms(3,4) ap slot show ?thesis
      by (auto simp: Verify_alt verify_pin_def Let_def unat_eq_zero split: if_splits)
  qed
qed

text \<open>
  C9. \<^verbatim>\<open>Verify\<close> with a passphrase refines the abstract PIN machine: the same answer and the
  same next state, with wrong passphrases costing one of the shared tries, success restoring all
  three, and no try left meaning that even the right passphrase is rejected.
\<close>

theorem verify_refines_pin:
  assumes "pgp_ok L" and "distinct_slots c" and "pw \<noteq> []"
    and "spec_verify (passphrase_ok L c (pin_key r c) pw) r (abs_pin c) = (answer, s')"
  shows "\<exists>c'. Verify L PW_VERIFY (pin_code r) pw c = Some (pin_reply L answer, c') \<and> abs_pin c' = s'"
  using assms by (rule verify_refines)

lemma sample_card_pins:
  "abs_pin sample_card = \<lparr>pin_sig = Locked, pin_dec = Locked, pin_tries = 3\<rparr>"
  "distinct_slots sample_card" "card_inv sample_card"
  by (simp_all add: abs_pin_def abs_slot_def distinct_slots_def card_inv_def slot_ok_def
      subkey_priv_def [of _ None] sample_key_defs)

theorem verify_refines_pin_witness:
  "pgp_ok sample_lib \<and> distinct_slots sample_card \<and>
   (\<exists>c'. Verify sample_lib PW_VERIFY (pin_code SigPin) [1, 2] sample_card =
        Some (pin_reply sample_lib Accepted, c') \<and>
      abs_pin c' = \<lparr>pin_sig = Open, pin_dec = Locked, pin_tries = 3\<rparr>)"
proof -
  have "passphrase_ok sample_lib sample_card (pin_key SigPin sample_card) [1, 2]"
    by (simp add: passphrase_ok_def sample_key_defs)
  then show ?thesis
    using verify_refines_pin [of sample_lib sample_card "[1, 2]" SigPin]
    by (simp add: sample_lib_pgp sample_card_pins abs_slot_def sample_key_defs)
qed

text \<open>
  C16. \<^verbatim>\<open>Verify\<close> with PW\_LOCK refines the abstract locking operation: it never panics, and it
  leaves a key locked exactly if the key was imported with a passphrase.
\<close>

theorem lock_refines_pin:
  assumes "card_inv c" and "distinct_slots c"
    and "spec_lock (pv_Encrypted (pin_cache r c)) r (abs_pin c) = (answer, s')"
  shows "\<exists>c'. Verify L PW_LOCK (pin_code r) pw c = Some (pin_reply L answer, c') \<and> abs_pin c' = s'"
proof (cases "subkey_priv c (pin_key r c)")
  case None
  then show ?thesis
    using assms(3) by (auto simp: Verify_alt abs_slot_def)
next
  case (Some ap)
  then obtain a p where ap: "subkey_priv c (pin_key r c) = Some (a, p)"
    by (cases ap) auto
  then have a: "pin_key r c = Some a"
    by (rule subkey_priv_Some)
  have slot: "abs_slot c (pin_key r c) = (if pv_Encrypted (c_pkh c p) then Locked else Open)"
    by (simp add: abs_slot_def ap)
  obtain k where k: "Restore c (pin_key r c) = Some k"
    and enc: "pv_Encrypted k = pv_Encrypted (pin_cache r c)"
    using ap Restore_Sig [OF assms(1)] Restore_Dec [OF assms(1)] by (cases r) fastforce+
  have "abs_pin (set_private a k c) =
      pin_set r (if pv_Encrypted k then Locked else Open) (abs_pin c)"
    using assms(1,2) ap a
    by (cases r) (auto simp: abs_pin_def abs_slot_def subkey_priv_set_private frame_simps
        card_identityD [OF set_private_frame(1)] distinct_slots_def card_inv_def slot_ok_def
        split: option.splits dest: subkey_priv_Some)
  moreover have "pin_set r Open (abs_pin c) = abs_pin c" if "\<not> pv_Encrypted (c_pkh c p)"
    using that slot by (cases r) (simp_all add: abs_pin_def)
  ultimately show ?thesis
    using assms(3) ap a k enc slot
    by (cases "pv_Encrypted (c_pkh c p)") (auto simp: Verify_alt lock_key_def)
qed

theorem lock_refines_pin_witness:
  "card_inv sample_card \<and> distinct_slots sample_card \<and>
   (\<exists>c'. Verify sample_lib PW_LOCK (pin_code DecPin) [] sample_card =
        Some (pin_reply sample_lib Accepted, c') \<and>
      abs_pin c' = \<lparr>pin_sig = Locked, pin_dec = Locked, pin_tries = 3\<rparr>)"
  using lock_refines_pin [of sample_card DecPin Accepted "abs_pin sample_card" sample_lib "[]"]
  by (simp add: sample_card_pins abs_slot_def sample_key_defs)

end
