(* ===== verification/CardCrypto.thy ===== *)
theory CardCrypto
  imports CardData PinMachine
begin

text \<open>
  The security operations of the card, \<^verbatim>\<open>src/internal/icc/crypto.go\<close> with its two builds
  \<^verbatim>\<open>crypto_imx6.go\<close> and \<^verbatim>\<open>crypto_stubs.go\<close>: PSO:COMPUTE DIGITAL SIGNATURE,
  PSO:DECIPHER, PSO:ENCIPHER and GET CHALLENGE. The asymmetric primitives are parameters
  (\<open>pgplib\<close>); the AES operations run CBC over the key the DCP derives.
\<close>

section \<open>Helpers\<close>

abbreviation (input) RSA_PADDING :: byte where "RSA_PADDING \<equiv> 0x00"

abbreviation (input) AES_PADDING :: byte where "AES_PADDING \<equiv> 0x02"

abbreviation (input) DO_CIPHER :: nat where "DO_CIPHER \<equiv> 0xa6"

text \<open>\<open>X\<close> is the X coordinate of the public key.\<close>

definition padToKeySize :: "nat \<Rightarrow> bytes \<Rightarrow> bytes" where
  "padToKeySize X b =
     (let k = (bit_len X + 7) div 8 + 2
      in if length b \<ge> k then b else replicate (k - length b) 0 @ b)"

definition Pad :: "bytes \<Rightarrow> bool \<Rightarrow> bytes" where
  "Pad buf extraBlock =
     (let r = length buf mod aes_BlockSize;
          padLen = (if r \<noteq> 0 then aes_BlockSize - r else if extraBlock then aes_BlockSize else 0)
      in buf @ replicate padLen (of_nat padLen))"

section \<open>Symmetric operations\<close>

definition aesCBC :: "('x) apdulib_scheme \<Rightarrow> bytes \<Rightarrow> bool \<Rightarrow> reply" where
  "aesCBC L data decrypt =
     (if \<not> SnvsAvailable L then (Some (CommandNotAllowed L), None)
      else
        let iv = replicate aes_BlockSize 0;
            (key, err) = DeriveKey L RID iv (-1)
        in if err \<noteq> None then (Some (CommandNotAllowed L), None)
           else if length data mod aes_BlockSize \<noteq> 0 then (Some WrongData, None)
           else case NewCipher key of
                  Some err \<Rightarrow> (None, Some err)
                | None \<Rightarrow>
                    (Some (CommandCompleted
                       (if decrypt then cbc_decrypt (AesDec L key) iv data
                        else cbc_encrypt (AesEnc L key) iv data)), None))"

definition encipher_imx6 :: "('x) apdulib_scheme \<Rightarrow> bytes \<Rightarrow> reply" where
  "encipher_imx6 L data = aesCBC L data False"

definition decipher_imx6 :: "('x) apdulib_scheme \<Rightarrow> bytes \<Rightarrow> reply" where
  "decipher_imx6 L data = aesCBC L data True"

definition encipher_stub :: "bytes \<Rightarrow> reply" where
  "encipher_stub data = (None, Some (GoErr ''not implemented''))"

definition decipher_stub :: "bytes \<Rightarrow> reply" where
  "decipher_stub data = (None, Some (GoErr ''not implemented''))"

text \<open>Which of the two the linker takes depends on the build.\<close>

definition encipher :: "('x) apdulib_scheme \<Rightarrow> bytes \<Rightarrow> reply" where
  "encipher L data = (if Tamago L then encipher_imx6 L data else encipher_stub data)"

definition decipher :: "('x) apdulib_scheme \<Rightarrow> bytes \<Rightarrow> reply" where
  "decipher L data = (if Tamago L then decipher_imx6 L data else decipher_stub data)"

section \<open>Commands\<close>

definition hash_of_digest :: "bytes \<Rightarrow> crypto_hash option" where
  "hash_of_digest digest =
     (if length digest = 32 then Some SHA256
      else if length digest = 48 then Some SHA384
      else if length digest = 64 then Some SHA512 else None)"

text \<open>The end of \<^verbatim>\<open>ComputeDigitalSignature\<close>, once a signature has been attempted.\<close>

definition finish_signature :: "bytes \<Rightarrow> goerr option \<Rightarrow> card \<Rightarrow> reply \<times> card" where
  "finish_signature sig err c =
     (if err \<noteq> None then ((Some UnrecoverableError, None), c)
      else ((Some (CommandCompleted sig), None),
            c\<lparr>c_digitalSignatureCounter := c_digitalSignatureCounter c + 1\<rparr>))"

text \<open>Its type switch on the private key, after the checks and the \<^verbatim>\<open>defer\<close>.\<close>

definition sign_with ::
    "('x) pgplib_scheme \<Rightarrow> privmat option \<Rightarrow> bytes \<Rightarrow> card \<Rightarrow> reply \<times> card" where
  "sign_with L priv data c =
     (case priv of
        Some (RsaPriv k) \<Rightarrow>
          if length data < 19 + 32 then ((Some WrongData, None), c)
          else
            let digest = drop 19 data
            in (case hash_of_digest digest of
                  None \<Rightarrow> ((Some WrongData, None), c)
                | Some hash \<Rightarrow>
                    let ((sig, err), s) = RsaSign L (c_rng c) k hash digest
                    in finish_signature sig err (c\<lparr>c_rng := s\<rparr>))
      | Some (EcdsaPriv X k) \<Rightarrow>
          let (((r, s), e), st) = EcdsaSign L (c_rng c) k data
          in finish_signature
               (if e \<noteq> None then [] else padToKeySize X (nat_bytes r) @ padToKeySize X (nat_bytes s))
               e (c\<lparr>c_rng := st\<rparr>)
      | _ \<Rightarrow> ((Some CardKeyNotSupported, None), c))"

text \<open>The deferred \<^verbatim>\<open>Verify(PW_LOCK, PW1_CDS, nil)\<close> runs after the reply is set.\<close>

definition ComputeDigitalSignature ::
    "('x) pgplib_scheme \<Rightarrow> bytes \<Rightarrow> card \<Rightarrow> (reply \<times> card) option" where
  "ComputeDigitalSignature L data c =
     (if length data = 0 then Some ((Some WrongData, None), c)
      else
        case subkey_priv c (c_Sig c) of
          None \<Rightarrow> Some ((Some CardKeyNotSupported, None), c)
        | Some (a, p) \<Rightarrow>
            if pv_Encrypted (c_pkh c p) then Some ((Some SecurityConditionNotSatisfied, None), c)
            else
              let (r, c1) = sign_with L (pv_PrivateKey (c_pkh c p)) data c
              in if PW1_CDS_MULTI = 0
                 then map_option (\<lambda>(_, c2). (r, c2)) (Verify L PW_LOCK PW1_CDS [] c1)
                 else Some (r, c1))"

text \<open>
  The ECDH branch of \<^verbatim>\<open>Decipher\<close>: \<^verbatim>\<open>v\<close> may panic, and so may \<^verbatim>\<open>make\<close> when the shared
  point is longer than half the public key. Go's division truncates, so an empty
  \<^verbatim>\<open>pubKey\<close> gives \<^verbatim>\<open>expectedSize\<close> 0; it is rejected in any case.
\<close>

definition ecdh_decipher :: "('x) pgplib_scheme \<Rightarrow> bytes \<Rightarrow> bytes \<Rightarrow> reply option" where
  "ecdh_decipher L k data =
     do {
       cipherDO \<leftarrow> tlv_v data DO_CIPHER;
       pubKeyDO \<leftarrow> tlv_v cipherDO DO_PUB_KEY;
       pubKey \<leftarrow> tlv_v pubKeyDO DO_EXT_PUB_KEY;
       let expectedSize = (length pubKey - 1) div 2;
       if length pubKey < 1 \<or> pubKey ! 0 \<noteq> 0x04 \<or> expectedSize * 2 \<noteq> length pubKey - 1
       then Some (Some WrongData, None)
       else
         let (plaintext, err) = EcdhDecaps L pubKey k
         in if length plaintext > expectedSize then None
            else if err \<noteq> None then Some (Some UnrecoverableError, None)
            else Some (Some (CommandCompleted
                   (replicate (expectedSize - length plaintext) 0 @ plaintext)), None)
     }"

definition Decipher :: "('x) pgplib_scheme \<Rightarrow> bytes \<Rightarrow> card \<Rightarrow> (reply \<times> card) option" where
  "Decipher L data c =
     (if length data < 1 then Some ((Some WrongData, None), c)
      else if data ! 0 = AES_PADDING then Some (decipher L (drop 1 data), c)
      else
        case subkey_priv c (c_Dec c) of
          None \<Rightarrow> Some ((Some CardKeyNotSupported, None), c)
        | Some (a, p) \<Rightarrow>
            if pv_Encrypted (c_pkh c p) then Some ((Some SecurityConditionNotSatisfied, None), c)
            else
              case pv_PrivateKey (c_pkh c p) of
                Some (RsaPriv k) \<Rightarrow>
                  if data ! 0 \<noteq> RSA_PADDING then Some ((Some CardKeyNotSupported, None), c)
                  else
                    let ((plaintext, err), s) = RsaDecrypt L (c_rng c) k (drop 1 data);
                        c' = c\<lparr>c_rng := s\<rparr>
                    in if err \<noteq> None then Some ((Some UnrecoverableError, None), c')
                       else Some ((Some (CommandCompleted plaintext), None), c')
              | Some (EcdhPriv k) \<Rightarrow>
                  if data ! 0 \<noteq> of_nat DO_CIPHER then Some ((Some CardKeyNotSupported, None), c)
                  else map_option (\<lambda>r. (r, c)) (ecdh_decipher L k data)
              | _ \<Rightarrow> Some ((Some CardKeyNotSupported, None), c))"

text \<open>\<^verbatim>\<open>Encipher\<close> dereferences the decryption subkey and its private key unchecked.\<close>

definition Encipher :: "('x) pgplib_scheme \<Rightarrow> bytes \<Rightarrow> card \<Rightarrow> (reply \<times> card) option" where
  "Encipher L data c =
     (case subkey_priv c (c_Dec c) of
        None \<Rightarrow> None
      | Some (a, p) \<Rightarrow>
          if pv_Encrypted (c_pkh c p) then Some ((Some SecurityConditionNotSatisfied, None), c)
          else Some (encipher L data, c))"

definition GetChallenge :: "('x) pgplib_scheme \<Rightarrow> int \<Rightarrow> card \<Rightarrow> (reply \<times> card) option" where
  "GetChallenge L n c =
     (if n < 0 then None
      else
        let ((buf, err), s) = RandRead L (c_rng c) (nat n);
            c' = c\<lparr>c_rng := s\<rparr>
        in if err \<noteq> None then Some ((Some UnrecoverableError, err), c')
           else Some ((Some (CommandCompleted buf), None), c'))"

section \<open>The commands keep the contract\<close>

lemma finish_signature_frame [frame_simps]:
  "card_identity (snd (finish_signature sig err c)) = card_identity c"
  "same_keys c (snd (finish_signature sig err c))"
  "c_led_blue (snd (finish_signature sig err c)) = c_led_blue c"
  "c_errorCounterPW1 (snd (finish_signature sig err c)) = c_errorCounterPW1 c"
  by (simp_all add: finish_signature_def card_identity_def same_keys_def)

lemma sign_with_cases:
  assumes "sign_with L priv data c = (r, c1)"
  obtains rapdu where "r = (Some rapdu, None)" "\<not> completed rapdu" "c1 = c"
  | sig err s where "finish_signature sig err (c\<lparr>c_rng := s\<rparr>) = (r, c1)"
  using assms
  by (auto simp: sign_with_def Let_def split: option.splits privmat.splits if_splits prod.splits)

lemma sign_with_frame:
  assumes "sign_with L priv data c = (r, c1)"
  shows "card_identity c1 = card_identity c" and "same_keys c c1"
    and "c_led_blue c1 = c_led_blue c" and "c_errorCounterPW1 c1 = c_errorCounterPW1 c"
    and "card_power c1 = card_power c"
  using assms
  by (elim sign_with_cases; auto simp: finish_signature_def card_identity_def same_keys_def card_power_def
      split: if_splits)+

lemma sign_with_inv: "sign_with L priv data c = (r, c1) \<Longrightarrow> card_inv c1 = card_inv c"
  by (rule same_keys_inv) (auto dest: sign_with_frame)

lemma sign_with_counter:
  assumes "sign_with L priv data c = (r, c1)"
  shows "\<exists>rapdu. r = (Some rapdu, None) \<and>
    c_digitalSignatureCounter c1 =
      (if completed rapdu then c_digitalSignatureCounter c + 1 else c_digitalSignatureCounter c)"
  using assms
  by (elim sign_with_cases) (auto simp: finish_signature_def split: if_splits)

lemma ComputeDigitalSignature_cases:
  assumes "ComputeDigitalSignature L data c = Some (r, c')"
  obtains rapdu where "c' = c" "r = (Some rapdu, None)" "\<not> completed rapdu"
  | a p c1 r' where "subkey_priv c (c_Sig c) = Some (a, p)" "\<not> pv_Encrypted (c_pkh c p)"
      "sign_with L (pv_PrivateKey (c_pkh c p)) data c = (r, c1)"
      "Verify L PW_LOCK PW1_CDS [] c1 = Some (r', c')"
  using assms
  by (auto simp: ComputeDigitalSignature_def split: if_splits option.splits prod.splits)

interpretation cds: quiet_handler ComputeDigitalSignature
proof
  fix L :: "('x) pgplib_scheme" and data c r c' sk
  assume run: "ComputeDigitalSignature L data c = Some (r, c')"
  show "card_identity c' = card_identity c"
    using run by (elim ComputeDigitalSignature_cases)
      (auto dest!: lock.quiet_identity dest: sign_with_frame(1))
  show "card_inv c \<Longrightarrow> card_inv c'"
    using run by (elim ComputeDigitalSignature_cases) (auto dest!: sign_with_inv dest: lock.quiet_inv)
  show "led_ok c \<Longrightarrow> led_ok c'"
    using run by (elim ComputeDigitalSignature_cases) (auto dest: Verify_led)
  show "c_errorCounterPW1 c' = c_errorCounterPW1 c"
    using run by (elim ComputeDigitalSignature_cases)
      (auto dest!: lock.quiet_counter dest: sign_with_frame(4))
  show "slot_locked c' sk" if "card_inv c" "sk \<in> {c_Sig c, c_Dec c}" "slot_locked c sk"
    using run
  proof (cases rule: ComputeDigitalSignature_cases)
    case (2 a p c1 r')
    note sign = sign_with_frame [OF 2(3)]
    from that have "card_inv c1" "sk \<in> {c_Sig c1, c_Dec c1}" "slot_locked c1 sk"
      using sign_with_inv [OF 2(3)] same_keys_slots(2) [OF sign(2)] card_identityD [OF sign(1)]
      by auto
    then show ?thesis
      using lock.quiet_locked [OF _ 2(4)] by blast
  qed (use that in simp)
  show "pins_kept c c'" if "card_inv c"
    using run
  proof (cases rule: ComputeDigitalSignature_cases)
    case (2 a p c1 r')
    note sign = sign_with_frame [OF 2(3)]
    show ?thesis
      using pins_kept_trans [OF same_keys_pins [OF sign(2,1)] _ sign(1)] lock.quiet_pins [OF _ 2(4)]
        sign_with_inv [OF 2(3)] that by blast
  qed simp
  show "power_ok c \<Longrightarrow> power_ok c'"
    using run by (elim ComputeDigitalSignature_cases)
      (auto dest!: sign_with_frame(5) Verify_power power_ok_cong)
qed

lemma Decipher_state:
  "Decipher L data c = Some (r, c') \<Longrightarrow> \<exists>s. c' = c\<lparr>c_rng := s\<rparr>"
  by (auto simp: Decipher_def Let_def split: if_splits option.splits privmat.splits prod.splits
      intro: exI [of _ "c_rng c"])

interpretation decipher_cmd: passive_handler Decipher
  by unfold_locales (auto dest!: Decipher_state simp: same_keys_def card_identity_def card_power_def)

lemma Encipher_state: "Encipher L data c = Some (r, c') \<Longrightarrow> c' = c"
  by (auto simp: Encipher_def split: if_splits option.splits)

interpretation encipher_cmd: passive_handler Encipher
  by unfold_locales (auto dest!: Encipher_state simp: same_keys_def)

lemma GetChallenge_state:
  "GetChallenge L n c = Some (r, c') \<Longrightarrow> \<exists>s. c' = c\<lparr>c_rng := s\<rparr>"
  by (auto simp: GetChallenge_def Let_def split: if_splits prod.splits)

interpretation get_challenge: passive_handler GetChallenge
  by unfold_locales (auto dest!: GetChallenge_state simp: same_keys_def card_identity_def card_power_def)

section \<open>Properties\<close>

lemma PW_LOCK_signature:
  assumes "card_inv c" and "subkey_priv c (c_Sig c) = Some (a, p)" and "\<not> pv_Encrypted (c_pkh c p)"
  shows "Verify L PW_LOCK PW1_CDS [] c = Some ((Some (CommandCompleted []), None),
     signalVerificationStatus (set_private a (c_sig c) c))"
  using assms Restore_Sig [OF assms(1,2)] subkey_priv_Some [OF assms(2)]
  by (simp add: Verify_alt pin_slot_def lock_key_def)

lemma relocked_signature:
  assumes "subkey_priv c (c_Sig c) = Some (a, p)"
  shows "slot_locked (set_private a k c) (c_Sig c) = pv_Encrypted k"
  using assms subkey_priv_Some [OF assms]
  by (simp add: slot_locked_def subkey_priv_set_private frame_simps)

text \<open>
  C10. One signature per VERIFY: a signature is only produced while the signature key is
  unlocked, it costs one tick of the signature counter, and afterwards the key is locked again
  whenever it was imported with a passphrase, without touching the retry counter. This holds for
  every outcome, success or not.
\<close>

theorem signature_needs_verify:
  assumes "card_inv c" and "pv_Encrypted (c_sig c)"
    and "ComputeDigitalSignature L data c = Some ((Some rapdu, err), c')"
  shows "(completed rapdu \<longrightarrow> data \<noteq> [] \<and> subkey_priv c (c_Sig c) \<noteq> None \<and> \<not> slot_locked c (c_Sig c) \<and>
       slot_locked c' (c_Sig c') \<and>
       c_digitalSignatureCounter c' = c_digitalSignatureCounter c + 1) \<and>
     (\<not> completed rapdu \<longrightarrow> c_digitalSignatureCounter c' = c_digitalSignatureCounter c) \<and>
     c_errorCounterPW1 c' = c_errorCounterPW1 c"
  using assms(3)
proof (cases rule: ComputeDigitalSignature_cases)
  case (2 a p c1 r')
  note sign = sign_with_frame [OF 2(3)]
  have keys: "subkey_priv c1 (c_Sig c1) = Some (a, p)" "c_pkh c1 p = c_pkh c p" "c_sig c1 = c_sig c"
    using 2(1) same_keys_slots(1) [OF sign(2)] card_identityD [OF sign(1)] same_keysD [OF sign(2)]
    by simp_all
  have "card_inv c1"
    using assms(1) sign_with_inv [OF 2(3)] by simp
  from PW_LOCK_signature [OF this keys(1), of L] 2(2,4) keys
  have c': "c' = signalVerificationStatus (set_private a (c_sig c) c1)"
    by simp
  have "slot_locked c' (c_Sig c')"
    using relocked_signature [OF keys(1), of "c_sig c"] assms(2) c'
      card_identityD(1) [OF set_private_frame(1)] card_identityD(1) [OF signal_frame(2)]
    by simp
  moreover have "c_digitalSignatureCounter c' = c_digitalSignatureCounter c1"
    "c_errorCounterPW1 c' = c_errorCounterPW1 c"
    using c' sign(4) by (simp_all add: frame_simps)
  moreover have "data \<noteq> []" if "completed rapdu"
    using assms(3) that by (auto simp: ComputeDigitalSignature_def)
  ultimately show ?thesis
    using 2(1,2) sign_with_counter [OF 2(3)] by (auto simp: slot_locked_def)
qed auto

text \<open>The sample card with its keys unlocked.\<close>

definition open_card :: card where
  "open_card = sample_card\<lparr>c_pkh := (\<lambda>p. (c_pkh sample_card p)\<lparr>pv_Encrypted := False\<rparr>)\<rparr>"

lemma open_card_simps [simp]:
  "c_Sig open_card = Some 0" "c_Dec open_card = Some 1" "c_rng open_card = 0"
  "subkey_priv open_card (Some a) = Some (a, a)"
  "c_sig open_card = sample_sig" "c_errorCounterPW1 open_card = 3"
  "c_pkh open_card 0 = sample_sig\<lparr>pv_Encrypted := False\<rparr>"
  "c_pkh open_card (Suc 0) = sample_dec\<lparr>pv_Encrypted := False\<rparr>"
  "c_digitalSignatureCounter open_card = 0"
  by (simp_all add: open_card_def)

lemma open_card_inv: "card_inv open_card"
  by (simp add: card_inv_def slot_ok_def open_card_def subkey_priv_def [of _ None] sample_key_defs)

theorem signature_needs_verify_witness:
  "\<exists>c' sig. ComputeDigitalSignature sample_lib (replicate 51 7) open_card =
       Some ((Some (CommandCompleted sig), None), c') \<and>
     slot_locked c' (c_Sig c') \<and> c_digitalSignatureCounter c' = 1 \<and> c_errorCounterPW1 c' = 3"
proof -
  let ?c = "open_card\<lparr>c_rng := 0, c_digitalSignatureCounter := 1\<rparr>"
  have same: "same_keys open_card ?c" "card_identity ?c = card_identity open_card"
    by (simp_all add: same_keys_def card_identity_def)
  then have "card_inv ?c" "subkey_priv ?c (c_Sig ?c) = Some (0, 0)"
    using same_keys_inv [OF same] open_card_inv same_keys_slots(1) [OF same(1)] by simp_all
  then have run: "\<exists>c'. ComputeDigitalSignature sample_lib (replicate 51 7) open_card =
      Some ((Some (CommandCompleted (replicate 32 7)), None), c')"
    using PW_LOCK_signature [of ?c 0 0 sample_lib]
    by (simp add: ComputeDigitalSignature_def sign_with_def sample_key_defs hash_of_digest_def
        finish_signature_def)
  then show ?thesis
    using signature_needs_verify [OF open_card_inv] by (fastforce simp: sample_key_defs)
qed

text \<open>
  C21. What the security operations answer while a key is locked, for every input: no signature is made
  and nothing is enciphered or deciphered with an OpenPGP key. COMPUTE DIGITAL SIGNATURE and DECIPHER refuse empty data as
  wrong, and everything else with the security status error, as ENCIPHER does with any data. The one
  exception is DECIPHER with AES padding, which does not look at the OpenPGP keys at all: it answers as the device's
  AES key does, whatever the card. The card never changes.
\<close>

theorem locked_keys_refuse:
  "(slot_locked c (c_Sig c) \<longrightarrow>
      ComputeDigitalSignature L data c =
        Some ((Some (if data = [] then WrongData else SecurityConditionNotSatisfied), None), c)) \<and>
   (slot_locked c (c_Dec c) \<longrightarrow>
      Encipher L data c = Some ((Some SecurityConditionNotSatisfied, None), c)) \<and>
   (slot_locked c (c_Dec c) \<longrightarrow>
      Decipher L data c =
        Some (if data = [] then (Some WrongData, None)
              else if hd data = AES_PADDING then decipher L (tl data)
              else (Some SecurityConditionNotSatisfied, None), c))"
  by (cases data; auto simp: slot_locked_def ComputeDigitalSignature_def Encipher_def Decipher_def Suc_le_eq
      split: option.splits)

theorem locked_keys_refuse_witness:
  "ComputeDigitalSignature sample_lib [7] sample_card =
     Some ((Some SecurityConditionNotSatisfied, None), sample_card) \<and>
   Encipher sample_lib [7] sample_card =
     Some ((Some SecurityConditionNotSatisfied, None), sample_card) \<and>
   Decipher sample_lib [7] sample_card =
     Some ((Some SecurityConditionNotSatisfied, None), sample_card)"
  using locked_keys_refuse [of sample_card sample_lib "[7]"]
  by (simp add: slot_locked_def sample_key_defs)

lemma aesCBC_ok:
  assumes "SnvsAvailable L" and "DeriveKey L RID (replicate 16 0) (-1) = (key, None)"
    and "length key \<in> {16, 24, 32}" and "length data mod 16 = 0"
  shows "aesCBC L data d = (Some (CommandCompleted
     (if d then cbc_decrypt (AesDec L key) (replicate 16 0) data
      else cbc_encrypt (AesEnc L key) (replicate 16 0) data)), None)"
  using assms by (auto simp: aesCBC_def NewCipher_def)

text \<open>
  C37. AES round trip: what ENCIPHER returns for whole blocks, DECIPHER turns back into the
  input. ENCIPHER needs the decryption key unlocked, DECIPHER with AES padding does not: it gives
  the plaintext to anyone, whatever the state of the card.
\<close>

theorem AES_roundtrip_unverified:
  assumes "cipher_ok L" and "Tamago L" and "SnvsAvailable L"
    and "DeriveKey L RID (replicate 16 0) (-1) = (key, None)" and "length key \<in> {16, 24, 32}"
    and "length data mod 16 = 0"
    and "subkey_priv c (c_Dec c) \<noteq> None" and "\<not> slot_locked c (c_Dec c)"
  shows "\<exists>ct. Encipher L data c = Some ((Some (CommandCompleted ct), None), c) \<and>
    length ct = length data \<and>
    Decipher L (AES_PADDING # ct) any = Some ((Some (CommandCompleted data), None), any)"
proof (intro exI conjI)
  let ?ct = "cbc_encrypt (AesEnc L key) (replicate 16 0) data"
  show len: "length ?ct = length data"
    by (rule length_cbc_encrypt) (use assms in simp_all)
  show "Encipher L data c = Some ((Some (CommandCompleted ?ct), None), c)"
    using assms by (auto simp: Encipher_def encipher_def encipher_imx6_def slot_locked_def aesCBC_ok)
  show "Decipher L (AES_PADDING # ?ct) any = Some ((Some (CommandCompleted data), None), any)"
    using assms len
    by (auto simp: Decipher_def decipher_def decipher_imx6_def aesCBC_ok cbc_roundtrip)
qed

theorem AES_roundtrip_unverified_witness:
  "\<exists>ct. Encipher sample_lib (replicate 32 9) open_card =
       Some ((Some (CommandCompleted ct), None), open_card) \<and>
     Decipher sample_lib (AES_PADDING # ct) blank_card =
       Some ((Some (CommandCompleted (replicate 32 9)), None), blank_card)"
  using AES_roundtrip_unverified [of sample_lib "replicate 16 5" "replicate 32 9" open_card blank_card]
  by (auto simp: sample_lib_cipher slot_locked_def sample_key_defs)

text \<open>
  ENCIPHER panics exactly on a card without decryption key, for instance one that was never
  initialized: it reads the key's state before checking that there is a key.
\<close>

theorem Encipher_panics_iff:
  "Encipher L data c = None \<longleftrightarrow> subkey_priv c (c_Dec c) = None"
  by (auto simp: Encipher_def split: option.splits)

text \<open>
  C38. A well-formed ECDH request is decoded to the ephemeral point it carries, and the answer is
  the shared secret padded with zeros to the size of a coordinate.
\<close>

theorem Decipher_ECDH:
  assumes "subkey_priv c (c_Dec c) = Some (a, p)" and "\<not> pv_Encrypted (c_pkh c p)"
    and "pv_PrivateKey (c_pkh c p) = Some (EcdhPriv k)"
    and "length xy = 2 * n" and "n \<le> 120"
    and "EcdhDecaps L (0x04 # xy) k = (secret, None)" and "length secret \<le> n"
  shows "Decipher L (tlv DO_CIPHER (tlv DO_PUB_KEY (tlv DO_EXT_PUB_KEY (0x04 # xy)))) c =
    Some ((Some (CommandCompleted (replicate (n - length secret) 0 @ secret)), None), c)"
proof -
  let ?pub = "tlv DO_EXT_PUB_KEY (0x04 # xy)"
  have len: "length ?pub \<le> 0xff" "length (tlv DO_PUB_KEY ?pub) \<le> 0xff"
    using assms(4,5) by (simp_all add: length_tlv length_tag_bytes)
  have v: "length val \<le> 0xff \<Longrightarrow> tlv_v (tlv t val) t = Some val" for t val
    using tlv_v_tlv [of val t "[]"] by simp
  have "ecdh_decipher L k (tlv DO_CIPHER (tlv DO_PUB_KEY ?pub)) =
      Some (Some (CommandCompleted (replicate (n - length secret) 0 @ secret)), None)"
    using assms(4-7) len by (simp add: ecdh_decipher_def v Let_def)
  moreover have "tlv DO_CIPHER val ! 0 = of_nat DO_CIPHER" and "tlv DO_CIPHER val \<noteq> []" for val
    by (simp_all add: tlv_alt tag_bytes_def)
  ultimately show ?thesis
    using assms(1-3) by (simp add: Decipher_def Suc_le_eq)
qed

theorem Decipher_ECDH_witness:
  "Decipher sample_lib (tlv DO_CIPHER (tlv DO_PUB_KEY (tlv DO_EXT_PUB_KEY
     (0x04 # replicate 64 7)))) open_card =
   Some ((Some (CommandCompleted (replicate 30 0 @ [1, 2])), None), open_card)"
  using Decipher_ECDH [of open_card 1 1 "[8]" "replicate 64 7" 32 sample_lib "[1, 2]"]
  by (simp add: sample_key_defs)

text \<open>
  A truncated or oversized ECDH request panics the firmware once the decryption key is
  unlocked: the one-byte request, and every request whose outer object is 256 bytes or longer.
\<close>

theorem Decipher_ECDH_panics:
  assumes "subkey_priv c (c_Dec c) = Some (a, p)" and "\<not> pv_Encrypted (c_pkh c p)"
    and "pv_PrivateKey (c_pkh c p) = Some (EcdhPriv k)"
  shows "Decipher L [of_nat DO_CIPHER] c = None \<and>
    Decipher L (of_nat DO_CIPHER # 0x82 # hi # rest) c = None"
  using assms
  by (simp add: Decipher_def ecdh_decipher_def tlv_v_def tlv_length_field_def idx_def subslice_def)

theorem Decipher_ECDH_panics_witness:
  "Decipher sample_lib [0xa6] open_card = None"
  using Decipher_ECDH_panics [of open_card 1 1 "[8]" sample_lib] by (simp add: sample_key_defs)

text \<open>Padding keeps the number a byte string denotes.\<close>

lemma be_nat_padToKeySize: "be_nat (padToKeySize X b) = be_nat b"
  by (simp add: padToKeySize_def Let_def be_nat_zeros)

lemma length_padToKeySize:
  "length b \<le> (bit_len X + 7) div 8 + 2 \<Longrightarrow> length (padToKeySize X b) = (bit_len X + 7) div 8 + 2"
  by (simp add: padToKeySize_def Let_def)

text \<open>
  C39. An ECDSA signature is two halves of equal length that denote \<open>r\<close> and \<open>s\<close>, so it can
  be split again. The halves are padded to two octets more than the public key's X coordinate takes, not to
  the size of the field as the RFC 7518 the code quotes prescribes: for a P-521 key with a
  full-size coordinate the signature has 136 octets, where two integers of 66 octets would make 132.
\<close>

theorem ECDSA_signature_splits:
  assumes "EcdsaSign L (c_rng c) k data = (((r, s), None), st)"
    and "n = (bit_len X + 7) div 8 + 2" and "r < 256 ^ n" and "s < 256 ^ n"
  shows "\<exists>sig c'. sign_with L (Some (EcdsaPriv X k)) data c =
      ((Some (CommandCompleted sig), None), c') \<and>
    length sig = 2 * n \<and> be_nat (take n sig) = r \<and> be_nat (drop n sig) = s \<and>
    (bit_len X = 521 \<longrightarrow> length sig = 136)"
proof -
  let ?R = "padToKeySize X (nat_bytes r)" and ?S = "padToKeySize X (nat_bytes s)"
  have "length ?R = n" "length ?S = n"
    using assms(2-4) by (simp_all add: length_nat_bytes length_padToKeySize)
  then show ?thesis
    using assms(1,2) by (simp add: sign_with_def finish_signature_def be_nat_padToKeySize)
qed

lemma bit_len_power: "bit_len (2 ^ n) = Suc n"
  by (induction n) (simp_all add: bit_len.simps)

theorem ECDSA_signature_splits_witness:
  "\<exists>sig c'. sign_with sample_lib (Some (EcdsaPriv (2 ^ 520) [])) [1, 2, 3] sample_card =
      ((Some (CommandCompleted sig), None), c') \<and>
    length sig = 136 \<and> be_nat (take 68 sig) = 3 \<and> be_nat (drop 68 sig) = 1"
proof -
  have "(3 :: nat) < 256 ^ 68" "(1 :: nat) < 256 ^ 68"
    by simp_all
  then have "\<exists>sig c'. sign_with sample_lib (Some (EcdsaPriv (2 ^ 520) [])) [1, 2, 3] sample_card =
      ((Some (CommandCompleted sig), None), c') \<and> length sig = 2 * 68 \<and>
    be_nat (take 68 sig) = 3 \<and> be_nat (drop 68 sig) = 1 \<and> (bit_len (2 ^ 520) = 521 \<longrightarrow> length sig = 136)"
    by (intro ECDSA_signature_splits [of sample_lib sample_card "[]" "[1, 2, 3]" 3 1 1])
      (simp_all add: bit_len_power del: power_numeral)
  then show ?thesis
    by (simp add: bit_len_power del: power_numeral) blast
qed

text \<open>
  PKCS7: with the extra block, the padded length is a multiple of the block size and the
  last byte tells how many bytes to strip.
\<close>

theorem Pad_PKCS7:
  "length (Pad buf True) mod 16 = 0 \<and> length buf < length (Pad buf True) \<and>
   take (length (Pad buf True) - unat (last (Pad buf True))) (Pad buf True) = buf"
proof -
  define n where "n = 16 - length buf mod 16"
  have n: "0 < n" "n \<le> 16"
    by (simp_all add: n_def)
  have pad: "Pad buf True = buf @ replicate n (of_nat n)"
    by (simp add: Pad_def Let_def n_def)
  have "(length buf + n) mod 16 = 0"
    unfolding n_def by presburger
  moreover have "unat (of_nat n :: byte) = n"
    using n by (simp add: unat_of_nat)
  ultimately show ?thesis
    using n by (simp add: pad last_append)
qed

end
