(* ===== verification/CardCommand.thy ===== *)
theory CardCommand
  imports CardCrypto
begin

text \<open>
  The command interface of the card, \<^verbatim>\<open>Select\<close>, \<^verbatim>\<open>Command\<close> and \<^verbatim>\<open>RawCommand\<close> of
  \<^verbatim>\<open>src/internal/icc/interface.go\<close>. \<open>Command\<close> is shown to satisfy the contract
  \<open>card_handler\<close>, from which the laws of command sequences follow: the retry counter, the
  locked keys, the status LED and the invariant of the card.
\<close>

section \<open>The code\<close>

definition Select :: "('x) pgplib_scheme \<Rightarrow> bytes \<Rightarrow> card \<Rightarrow> (reply \<times> card) option" where
  "Select L file c =
     (if file = RID \<or> file = AID c
      then Some ((Some (CommandCompleted []), None), c\<lparr>c_selected := True\<rparr>)
      else if c_selected c then
        do {
          (_, c1) \<leftarrow> Verify L PW_LOCK PW1_CDS [] c;
          (_, c2) \<leftarrow> Verify L PW_LOCK PW1 [] c1;
          (_, c3) \<leftarrow> Verify L PW_LOCK PW3 [] c2;
          Some ((Some (FileNotFound L), None), c3\<lparr>c_selected := False\<rparr>)
        }
      else Some ((Some (FileNotFound L), None), c))"

abbreviation (input) INS_SELECT :: byte where "INS_SELECT \<equiv> 0xa4"
abbreviation (input) INS_GET_DATA :: byte where "INS_GET_DATA \<equiv> 0xca"
abbreviation (input) INS_VERIFY :: byte where "INS_VERIFY \<equiv> 0x20"
abbreviation (input) INS_PUT_DATA_1 :: byte where "INS_PUT_DATA_1 \<equiv> 0xda"
abbreviation (input) INS_PUT_DATA_2 :: byte where "INS_PUT_DATA_2 \<equiv> 0xdb"
abbreviation (input) INS_GENERATE :: byte where "INS_GENERATE \<equiv> 0x47"
abbreviation (input) INS_GET_CHALLENGE :: byte where "INS_GET_CHALLENGE \<equiv> 0x84"
abbreviation (input) INS_PSO :: byte where "INS_PSO \<equiv> 0x2a"
abbreviation (input) COMPUTE_DIGITAL_SIGNATURE :: u16 where "COMPUTE_DIGITAL_SIGNATURE \<equiv> 0x9e9a"
abbreviation (input) DECIPHER :: u16 where "DECIPHER \<equiv> 0x8086"
abbreviation (input) ENCIPHER :: u16 where "ENCIPHER \<equiv> 0x8680"

text \<open>PERFORM SECURITY OPERATION: the inner switch, between switching the white LED on and off.\<close>

definition security_operation ::
    "('x) pgplib_scheme \<Rightarrow> u16 \<Rightarrow> bytes \<Rightarrow> card \<Rightarrow> (reply \<times> card) option" where
  "security_operation L params data c =
     map_option (\<lambda>(r, c'). (r, LED ''white'' False c'))
       (let c0 = LED ''white'' True c
        in if params = COMPUTE_DIGITAL_SIGNATURE then ComputeDigitalSignature L data c0
           else if params = DECIPHER then Decipher L data c0
           else if params = ENCIPHER then Encipher L data c0
           else Some ((Some (CommandNotAllowed L), None), c0))"

definition dispatch :: "('x) pgplib_scheme \<Rightarrow> u16 \<Rightarrow> capdu \<Rightarrow> card \<Rightarrow> (reply \<times> card) option" where
  "dispatch L params cmd c =
     (if INS cmd = INS_SELECT then Select L (CData cmd) c
      else if INS cmd = INS_GET_DATA then GetData L params c
      else if INS cmd = INS_VERIFY then Verify L (P1 cmd) (P2 cmd) (CData cmd) c
      else if INS cmd = INS_PUT_DATA_1 \<or> INS cmd = INS_PUT_DATA_2 then PutData L params c
      else if INS cmd = INS_GENERATE then GenerateAsymmetricKeyPair L params (CData cmd) c
      else if INS cmd = INS_GET_CHALLENGE then GetChallenge L (GetLe L cmd) c
      else if INS cmd = INS_PSO then security_operation L params (CData cmd) c
      else Some ((Some (CommandNotAllowed L), None), c))"

text \<open>\<^verbatim>\<open>Command\<close> never returns a nil response.\<close>

definition Command ::
    "('x) pgplib_scheme \<Rightarrow> capdu \<Rightarrow> card \<Rightarrow> ((rapdu \<times> goerr option) \<times> card) option" where
  "Command L cmd c =
     (if CLA cmd \<noteq> 0x00 then Some ((CommandNotAllowed L, None), c)
      else
        do {
          params \<leftarrow> be_uint16 [P1 cmd, P2 cmd];
          ((rapdu, err), c') \<leftarrow> dispatch L params cmd c;
          Some ((case rapdu of None \<Rightarrow> CommandNotAllowed L | Some r \<Rightarrow> r, err), c')
        })"

definition RawCommand ::
    "('x) pgplib_scheme \<Rightarrow> bytes \<Rightarrow> card \<Rightarrow> ((bytes \<times> goerr option) \<times> card) option" where
  "RawCommand L buf c =
     (case Unmarshal L buf of
        (_, Some err) \<Rightarrow> Some (([], Some err), c)
      | (capdu, None) \<Rightarrow>
          do {
            ((rapdu, err), c') \<leftarrow> Command L capdu c;
            Some (case err of Some e \<Rightarrow> ([], Some e) | None \<Rightarrow> Marshal L rapdu, c')
          })"

section \<open>The contract of the command interface\<close>

lemma LED_white_quiet [simp]: "quiet_step c (LED ''white'' on c)"
  by (rule same_keys_quiet) (simp_all add: frame_simps power_ok_cong [OF LED_frame(7)], simp add: LED_def)

lemma selected_quiet [simp]: "quiet_step c (c\<lparr>c_selected := b\<rparr>)"
  by (rule same_keys_quiet) (simp_all add: same_keys_def card_identity_def power_ok_def)

lemma Select_cases:
  assumes "Select L file c = Some (r, c')"
  obtains "file = RID \<or> file = AID c" "r = (Some (CommandCompleted []), None)"
      "c' = c\<lparr>c_selected := True\<rparr>"
  | r1 c1 r2 c2 r3 c3 where "c_selected c" "Verify L PW_LOCK PW1_CDS [] c = Some (r1, c1)"
      "Verify L PW_LOCK PW1 [] c1 = Some (r2, c2)" "Verify L PW_LOCK PW3 [] c2 = Some (r3, c3)"
      "r = (Some (FileNotFound L), None)" "c' = c3\<lparr>c_selected := False\<rparr>"
  | "\<not> c_selected c" "r = (Some (FileNotFound L), None)" "c' = c"
  using assms
  by (auto simp: Select_def bind_eq_Some_conv split: if_splits)

lemma Select_quiet: "Select L file c = Some (r, c') \<Longrightarrow> quiet_step c c'"
proof (elim Select_cases)
  fix r1 c1 r2 c2 r3 c3
  assume "Verify L PW_LOCK PW1_CDS [] c = Some (r1, c1)" "Verify L PW_LOCK PW1 [] c1 = Some (r2, c2)"
    "Verify L PW_LOCK PW3 [] c2 = Some (r3, c3)" and c': "c' = c3\<lparr>c_selected := False\<rparr>"
  then have "quiet_step c c1" "quiet_step c1 c2" "quiet_step c2 c3"
    by (auto dest: lock.run_quiet)
  then have "quiet_step c c3"
    by (blast intro: quiet_step_trans)
  then show "quiet_step c c'"
    unfolding c' using selected_quiet by (rule quiet_step_trans)
qed simp_all

lemma security_operation_quiet:
  assumes "security_operation L params data c = Some (r, c')"
  shows "quiet_step c c'"
proof -
  let ?c0 = "LED ''white'' True c"
  from assms obtain c1 where c': "c' = LED ''white'' False c1" and
    "ComputeDigitalSignature L data ?c0 = Some (r, c1) \<or> Decipher L data ?c0 = Some (r, c1) \<or>
     Encipher L data ?c0 = Some (r, c1) \<or> c1 = ?c0"
    by (auto simp: security_operation_def Let_def split: if_splits)
  then have "quiet_step ?c0 c1"
    by (auto dest: cds.run_quiet decipher_cmd.run_quiet encipher_cmd.run_quiet)
  then show ?thesis
    unfolding c' by (meson LED_white_quiet quiet_step_trans)
qed

lemma dispatch_cases:
  assumes "dispatch L params cmd c = Some (r, c')"
  obtains "INS cmd = INS_VERIFY" "P1 cmd = PW_VERIFY" "Verify L (P1 cmd) (P2 cmd) (CData cmd) c = Some (r, c')"
  | "quiet_step c c'"
proof (cases "INS cmd = INS_VERIFY")
  case True
  with assms have "Verify L (P1 cmd) (P2 cmd) (CData cmd) c = Some (r, c')"
    by (simp add: dispatch_def)
  then show ?thesis
    using True that Verify_quiet by blast
next
  case False
  then have "quiet_step c c'"
    using assms generate.run_quiet [of L "(params, CData cmd)"]
    by (auto simp: dispatch_def split: if_splits
        dest: Select_quiet get_data.run_quiet put_data.run_quiet get_challenge.run_quiet
          security_operation_quiet)
  then show ?thesis by (rule that(2))
qed

lemma Command_cases:
  assumes "Command L cmd c = Some (r, c')"
  obtains rep where "CLA cmd = 0" "INS cmd = INS_VERIFY" "P1 cmd = PW_VERIFY"
      "Verify L PW_VERIFY (P2 cmd) (CData cmd) c = Some (rep, c')"
  | "quiet_step c c'"
  using assms
  by (auto simp: Command_def bind_eq_Some_conv simp del: be_uint16.simps split: if_splits
      elim!: dispatch_cases)

text \<open>A quiet operation and \<^verbatim>\<open>Verify\<close> both satisfy the contract, hence \<^verbatim>\<open>Command\<close> does.\<close>

lemma quiet_stepD:
  assumes "quiet_step c c'"
  shows "card_identity c' = card_identity c" and "card_inv c \<Longrightarrow> card_inv c'"
    and "led_ok c \<Longrightarrow> led_ok c'" and "c_errorCounterPW1 c' = c_errorCounterPW1 c"
    and "card_inv c \<Longrightarrow> sk \<in> {c_Sig c, c_Dec c} \<Longrightarrow> slot_locked c sk \<Longrightarrow> slot_locked c' sk"
    and "card_inv c \<Longrightarrow> pins_kept c c'" and "power_ok c \<Longrightarrow> power_ok c'"
  using assms by (auto simp: quiet_step_def)

interpretation command: card_handler Command
proof
  fix L :: "('x) pgplib_scheme" and cmd c r c' sk
  assume run: "Command L cmd c = Some (r, c')"
  show "card_identity c' = card_identity c"
    using run by (elim Command_cases) (auto dest: Verify_identity quiet_stepD)
  show "card_inv c'" if "pgp_ok L" "card_inv c"
    using run that by (elim Command_cases) (auto dest: Verify_inv quiet_stepD)
  show "led_ok c'" if "led_ok c"
    using run that by (elim Command_cases) (auto dest: Verify_led quiet_stepD)
  show "c_errorCounterPW1 c' = 0" if "c_errorCounterPW1 c = 0"
    using run that by (elim Command_cases) (auto dest: Verify_counter_zero quiet_stepD)
  show "power_ok c'" if "power_ok c"
    using run that by (elim Command_cases) (auto dest: Verify_power quiet_stepD)
  show "slot_locked c' sk" if "card_inv c" "c_errorCounterPW1 c = 0" "sk \<in> {c_Sig c, c_Dec c}"
      "slot_locked c sk"
    using run
  proof (cases rule: Command_cases)
    case (1 rep)
    then show ?thesis
      using Verify_blocked_keeps_locked that by blast
  qed (use that quiet_stepD(5) in blast)
qed

lemma RawCommand_cases:
  assumes "RawCommand L buf c = Some (r, c')"
  obtains "c' = c" | cmd r' where "Unmarshal L buf = (cmd, None)" "Command L cmd c = Some (r', c')"
  using assms
  by (auto simp: RawCommand_def bind_eq_Some_conv split: prod.splits option.splits)

interpretation raw_command: card_handler RawCommand
  by unfold_locales
    (elim RawCommand_cases;
      auto dest: command.identity command.inv command.led command.blocked command.blocked_locked
        command.power)+

section \<open>Properties\<close>

text \<open>
  Blocked forever: once the retry counter has reached zero, no sequence of APDUs, well formed
  or not, raises it again or unlocks a locked signature or decryption key, even with the right
  passphrase.
\<close>

theorem blocked_forever:
  assumes "pgp_ok L" and "card_inv c" and "c_errorCounterPW1 c = 0"
    and "run_seq RawCommand L bufs c = Some (replies, c')"
  shows "c_errorCounterPW1 c' = 0 \<and>
    (slot_locked c (c_Sig c) \<longrightarrow> slot_locked c' (c_Sig c)) \<and>
    (slot_locked c (c_Dec c) \<longrightarrow> slot_locked c' (c_Dec c))"
  using raw_command.seq_blocked [OF assms(1,2,4,3)] by simp

lemma rejected_slot:
  assumes "pv_Encrypted k = pv_Encrypted (c_pkh c p)"
  shows "slot_locked (c\<lparr>c_pkh := (c_pkh c)(p := k), c_errorCounterPW1 := n\<rparr>) sk = slot_locked c sk"
  using assms by (auto simp: slot_locked_def split: option.split)

text \<open>
  C8. A key is only unlocked by its passphrase: if a command leaves a locked signature or
  decryption key unlocked, it was a VERIFY with a try left whose data that key's own decryption
  accepted.
\<close>

theorem unlock_needs_passphrase:
  assumes "pgp_ok L" and "card_inv c" and "Command L cmd c = Some (r, c')"
    and "sk \<in> {c_Sig c, c_Dec c}" and "slot_locked c sk" and "\<not> slot_locked c' sk"
  shows "CLA cmd = 0 \<and> INS cmd = INS_VERIFY \<and> P1 cmd = PW_VERIFY \<and> c_errorCounterPW1 c \<noteq> 0 \<and>
    (\<exists>a p. subkey_priv c sk = Some (a, p) \<and> fst (PkDecrypt L (c_pkh c p) (CData cmd)) = None)"
  using assms(3)
proof (cases rule: Command_cases)
  case (1 rep)
  from 1(4) show ?thesis
  proof (cases rule: Verify_cases)
    case (2 a p c1)
    from 2(3) show ?thesis
    proof (cases rule: verify_pin_cases)
      case (2 k)
      then have "subkey_priv c sk = Some (a', p') \<Longrightarrow> p' = p" for a' p'
        using assms(5,6) \<open>c' = signalVerificationStatus c1\<close>
        by (auto simp: slot_locked_def [of c] slot_locked_def [of "_\<lparr>c_errorCounterPW1 := _\<rparr>"] split: if_splits)
      then show ?thesis
        using 1 2 assms(5) by (auto simp: slot_locked_def split: option.splits)
    next
      case (3 e k)
      then have "pv_Encrypted k = pv_Encrypted (c_pkh c p)"
        using assms(1) unfolding pgp_ok_def by (metis fst_conv option.distinct(1) snd_conv)
      with 3 \<open>c' = signalVerificationStatus c1\<close> assms(5,6) show ?thesis
        by (simp add: rejected_slot)
    qed (use \<open>c' = signalVerificationStatus c1\<close> assms in simp)
  qed (use assms in auto)
qed (use assms quiet_stepD(5) in blast)

text \<open>Locking under the invariant: it always returns, and with an encrypted copy it locks.\<close>

lemma subkey_priv_None [simp]: "subkey_priv c None = None"
  by (simp add: subkey_priv_def)

lemma Restore_pin:
  assumes "card_inv c" and "subkey_priv c (pin_slot p2 c) = Some (a, p)"
  shows "\<exists>k. Restore c (pin_slot p2 c) = Some k \<and>
    (p2 = PW1_CDS \<longrightarrow> pv_Encrypted k = pv_Encrypted (c_sig c)) \<and>
    (p2 = PW1 \<longrightarrow> pv_Encrypted k = pv_Encrypted (c_dec c))"
proof -
  consider "p2 = PW1_CDS" | "p2 = PW1"
    using assms(2) by (auto simp: pin_slot_def split: if_splits)
  then show ?thesis
    using assms Restore_Sig [OF assms(1)] Restore_Dec [OF assms(1)]
    by cases (auto simp: pin_slot_def)
qed

lemma lock_unlocked:
  assumes "subkey_priv c (pin_slot p2 c) = Some (a, p)" and "Restore c (pin_slot p2 c) = Some k"
  shows "Verify L PW_LOCK p2 [] c = Some ((Some (CommandCompleted []), None),
    signalVerificationStatus (if pv_Encrypted (c_pkh c p) then c else set_private a k c))"
  using assms subkey_priv_Some [OF assms(1)] by (simp add: Verify_alt lock_key_def)

lemma Verify_returns:
  assumes "card_inv c"
  shows "Verify L p1 p2 pw c \<noteq> None"
proof (cases "subkey_priv c (pin_slot p2 c)")
  case (Some ap)
  then obtain a p where ap: "subkey_priv c (pin_slot p2 c) = Some (a, p)"
    by (cases ap) simp
  then obtain k where "Restore c (Some a) = Some k"
    using Restore_pin [OF assms ap] subkey_priv_Some [OF ap] by auto
  with ap show ?thesis
    by (simp add: Verify_alt lock_key_def del: not_None_eq)
qed (simp add: Verify_alt)

lemma lock_total: "card_inv c \<Longrightarrow> \<exists>r c'. Verify L PW_LOCK p2 [] c = Some (r, c')"
  using Verify_returns by fastforce

lemma lock_locks:
  assumes "card_inv c" and "Verify L PW_LOCK p2 [] c = Some (r, c')"
    and "p2 = PW1_CDS \<and> pv_Encrypted (c_sig c) \<or> p2 = PW1 \<and> pv_Encrypted (c_dec c)"
    and "subkey_priv c (pin_slot p2 c) = Some (a, p)"
  shows "slot_locked c' (pin_slot p2 c)"
proof -
  obtain k where k: "Restore c (pin_slot p2 c) = Some k"
      "p2 = PW1_CDS \<Longrightarrow> pv_Encrypted k = pv_Encrypted (c_sig c)"
      "p2 = PW1 \<Longrightarrow> pv_Encrypted k = pv_Encrypted (c_dec c)"
    using Restore_pin [OF assms(1,4)] by auto
  have "slot_locked (set_private a k c) (pin_slot p2 c)"
    using k(2,3) assms(3) subkey_priv_Some [OF assms(4)]
    by (auto simp: slot_locked_def subkey_priv_set_private frame_simps)
  then show ?thesis
    using assms(2,4) lock_unlocked [OF assms(4) k(1), of L]
    by (auto simp: slot_locked_def [of c] split: if_splits)
qed

text \<open>
  C22. SELECT of another application takes the card out of selection and locks the signature and
  the decryption key, whatever was unlocked before, if they were imported with a passphrase.
\<close>

theorem Select_other_locks:
  assumes "card_inv c" and "c_selected c" and "file \<noteq> RID" and "file \<noteq> AID c"
    and "pv_Encrypted (c_sig c)" and "pv_Encrypted (c_dec c)"
  shows "\<exists>c'. Select L file c = Some ((Some (FileNotFound L), None), c') \<and> \<not> c_selected c' \<and>
    (\<forall>sk \<in> {c_Sig c, c_Dec c}. subkey_priv c sk \<noteq> None \<longrightarrow> slot_locked c' sk)"
proof -
  obtain r1 c1 where 1: "Verify L PW_LOCK PW1_CDS [] c = Some (r1, c1)"
    using lock_total [OF assms(1)] by blast
  have inv1: "card_inv c1" and ident1: "card_identity c1 = card_identity c"
    using quiet_stepD [OF lock.run_quiet [OF 1]] assms(1) by auto
  obtain r2 c2 where 2: "Verify L PW_LOCK PW1 [] c1 = Some (r2, c2)"
    using lock_total [OF inv1] by blast
  have inv2: "card_inv c2" and ident2: "card_identity c2 = card_identity c1"
    using quiet_stepD [OF lock.run_quiet [OF 2]] inv1 by auto
  obtain r3 c3 where 3: "Verify L PW_LOCK PW3 [] c2 = Some (r3, c3)"
    using lock_total [OF inv2] by blast
  note keep2 = quiet_stepD(5) [OF lock.run_quiet [OF 2] inv1]
  note keep3 = quiet_stepD(5) [OF lock.run_quiet [OF 3] inv2]
  note slots = card_identityD [OF ident1] card_identityD [OF ident2]
  have "slot_locked c3 (c_Sig c)" if "subkey_priv c (c_Sig c) = Some (a, p)" for a p
    using lock_locks [OF assms(1) 1, of a p] that assms(5) keep2 keep3 slots
    by (auto simp: pin_slot_def)
  moreover have "slot_locked c3 (c_Dec c)" if "subkey_priv c1 (c_Dec c) = Some (a, p)" for a p
    using lock_locks [OF inv1 2, of a p] that assms(6) keep3 slots
    by (auto simp: pin_slot_def)
  moreover have "subkey_priv c sk \<noteq> None \<Longrightarrow> subkey_priv c1 sk \<noteq> None" for sk
    using 1 by (rule Verify_cases)
      (auto simp: same_keys_slots(1) [OF signal_frame(1)] subkey_priv_set_private)
  ultimately have "subkey_priv c sk \<noteq> None \<longrightarrow> slot_locked c3 sk" if "sk \<in> {c_Sig c, c_Dec c}" for sk
    using that by (auto simp del: not_None_eq) (metis option.exhaust surj_pair)+
  moreover have "slot_locked (c3\<lparr>c_selected := False\<rparr>) sk = slot_locked c3 sk" for sk
    by (rule same_keys_slots(2)) (simp add: same_keys_def)
  ultimately show ?thesis
    using assms(2-4) 1 2 3 by (simp add: Select_def)
qed

text \<open>Which commands return, given the invariant.\<close>

lemma Select_returns:
  assumes "card_inv c"
  shows "Select L file c \<noteq> None"
proof -
  obtain r1 c1 where 1: "Verify L PW_LOCK PW1_CDS [] c = Some (r1, c1)"
    using lock_total [OF assms] by blast
  obtain r2 c2 where 2: "Verify L PW_LOCK PW1 [] c1 = Some (r2, c2)"
    using lock_total [OF lock.quiet_inv [OF assms 1]] by blast
  obtain r3 c3 where "Verify L PW_LOCK PW3 [] c2 = Some (r3, c3)"
    using lock_total [OF lock.quiet_inv [OF lock.quiet_inv [OF assms 1] 2]] by blast
  with 1 2 show ?thesis
    by (simp add: Select_def)
qed

lemma ComputeDigitalSignature_returns:
  assumes "card_inv c"
  shows "ComputeDigitalSignature L data c \<noteq> None"
proof -
  have "Verify L PW_LOCK PW1_CDS [] (snd (sign_with L priv data c)) \<noteq> None" for priv
    using Verify_returns sign_with_inv [of L priv data c] assms by (metis surj_pair snd_conv)
  then show ?thesis
    by (simp add: ComputeDigitalSignature_def split_beta del: not_None_eq split: option.split)
qed

lemma Generate_returns:
  assumes "\<forall>sk \<in> {c_Sig c, c_Dec c, c_Aut c}. slot_public c sk \<noteq> None"
  shows "GenerateAsymmetricKeyPair L params crt c \<noteq> None"
proof -
  have "sk_PublicKey (c_skh c a) \<noteq> None" if "crt_slot crt c = Some (Some a)" for a
  proof -
    have "Some a \<in> {c_Sig c, c_Dec c, c_Aut c}"
      using that by (auto simp: crt_slot_def split: if_splits)
    then show ?thesis
      using assms by (force simp: slot_public_def split: option.splits)
  qed
  then show ?thesis
    by (auto simp: GenerateAsymmetricKeyPair_def ok_body_def split: option.splits sum.splits)
qed

lemma Decipher_panics:
  assumes "Decipher L data c = None"
  shows "\<exists>a p k. subkey_priv c (c_Dec c) = Some (a, p) \<and> \<not> slot_locked c (c_Dec c) \<and>
    pv_PrivateKey (c_pkh c p) = Some (EcdhPriv k) \<and> ecdh_decipher L k data = None"
  using assms
  by (auto simp: Decipher_def slot_locked_def Let_def
      split: if_splits option.splits privmat.splits prod.splits)

lemma security_operation_panics:
  assumes "card_inv c" and "security_operation L params data c = None"
  shows "params = 0x8680 \<and> subkey_priv c (c_Dec c) = None \<or>
    params = 0x8086 \<and> (\<exists>a p k. subkey_priv c (c_Dec c) = Some (a, p) \<and> \<not> slot_locked c (c_Dec c) \<and>
      pv_PrivateKey (c_pkh c p) = Some (EcdhPriv k) \<and> ecdh_decipher L k data = None)"
proof -
  let ?c = "LED ''white'' True c"
  note same = LED_frame(1) [of c "''white''" True]
  have "card_inv ?c"
    using quiet_stepD(2) [OF LED_white_quiet] assms(1) by blast
  then have "ComputeDigitalSignature L data ?c \<noteq> None"
    by (rule ComputeDigitalSignature_returns)
  with assms(2) have "params = 0x8680 \<and> Encipher L data ?c = None \<or>
      params = 0x8086 \<and> Decipher L data ?c = None"
    by (auto simp: security_operation_def Let_def split: if_splits)
  moreover have "c_Dec ?c = c_Dec c" "subkey_priv ?c = subkey_priv c" "slot_locked ?c = slot_locked c"
    "c_pkh ?c = c_pkh c"
    using same_keys_slots [OF same] same_keysD [OF same] card_identityD [OF LED_frame(2)] by auto
  ultimately show ?thesis
    using Decipher_panics [of L data ?c] by (auto simp: Encipher_def split: option.splits if_splits)
qed

text \<open>
  C17. The only commands that can panic the firmware, on a card that satisfies its invariant and
  has the public key of every slot: GET CHALLENGE with a negative length, ENCIPHER without a
  decryption key, and DECIPHER of a malformed ECDH request with an unlocked key. Every other
  command returns a response.
\<close>

theorem Command_panics:
  assumes "card_inv c" and "\<forall>sk \<in> {c_Sig c, c_Dec c, c_Aut c}. slot_public c sk \<noteq> None"
    and "length (c_CA c) \<le> 3" and "Command L cmd c = None"
  shows "INS cmd = INS_GET_CHALLENGE \<and> GetLe L cmd < 0 \<or>
    INS cmd = INS_PSO \<and> [P1 cmd, P2 cmd] = [0x86, 0x80] \<and> subkey_priv c (c_Dec c) = None \<or>
    INS cmd = INS_PSO \<and> [P1 cmd, P2 cmd] = [0x80, 0x86] \<and>
      (\<exists>a p k. subkey_priv c (c_Dec c) = Some (a, p) \<and> \<not> slot_locked c (c_Dec c) \<and>
        pv_PrivateKey (c_pkh c p) = Some (EcdhPriv k) \<and> ecdh_decipher L k (CData cmd) = None)"
proof -
  obtain params where params: "be_uint16 [P1 cmd, P2 cmd] = Some params"
    by simp
  then have enc: "be_put16 params = [P1 cmd, P2 cmd]"
    using be16.enc_dec by fastforce
  have "be_put16 0x8680 = [0x86, 0x80]" "be_put16 0x8086 = [0x80, 0x86]"
    by (simp_all add: be_put16_def)
  with enc have pso: "params = 0x8680 \<Longrightarrow> [P1 cmd, P2 cmd] = [0x86, 0x80]"
    "params = 0x8086 \<Longrightarrow> [P1 cmd, P2 cmd] = [0x80, 0x86]"
    by metis+
  have "dispatch L params cmd c = None"
    using assms(4) params by (cases "dispatch L params cmd c") (auto simp: Command_def simp del: be_uint16.simps split: if_splits)
  moreover have "Verify L (P1 cmd) (P2 cmd) (CData cmd) c \<noteq> None"
    using assms(1) by (rule Verify_returns)
  moreover have "GetData L params c \<noteq> None"
    using GetData_returns [OF assms(2,3), of L params] by auto
  ultimately have "INS cmd = INS_GET_CHALLENGE \<and> GetLe L cmd < 0 \<or>
      INS cmd = INS_PSO \<and> security_operation L params (CData cmd) c = None"
    using Select_returns [OF assms(1), of L "CData cmd"] Generate_returns [OF assms(2), of L params "CData cmd"]
    by (auto simp: dispatch_def PutData_def GetChallenge_def Let_def split: if_splits prod.splits)
  then show ?thesis
    using security_operation_panics [OF assms(1)] pso by blast
qed

section \<open>Concrete runs\<close>

definition verify_sig_cmd :: capdu where
  "verify_sig_cmd = \<lparr>CLA = 0, INS = INS_VERIFY, P1 = PW_VERIFY, P2 = PW1_CDS, CData = [1, 2],
     CRest = []\<rparr>"

lemma sample_unmarshal [simp]:
  "sample_Unmarshal [0, 0x20, 0, 0x81, 1, 2] = (verify_sig_cmd, None)"
  by (simp add: sample_Unmarshal_def verify_sig_cmd_def)

lemma Command_verify_sig:
  "Command L verify_sig_cmd c =
     map_option (\<lambda>((rapdu, err), c'). ((case rapdu of None \<Rightarrow> CommandNotAllowed L | Some r \<Rightarrow> r, err), c'))
       (Verify L PW_VERIFY PW1_CDS [1, 2] c)"
  by (cases "Verify L PW_VERIFY PW1_CDS [1, 2] c")
    (simp_all add: Command_def verify_sig_cmd_def dispatch_def split_beta)

definition blocked_card :: card where
  "blocked_card = sample_card\<lparr>c_errorCounterPW1 := 0\<rparr>"

lemma blocked_card_simps [simp]:
  "c_Sig blocked_card = Some 0" "c_Dec blocked_card = Some 1" "c_errorCounterPW1 blocked_card = 0"
  "subkey_priv blocked_card (Some a) = Some (a, a)" "c_pkh blocked_card 0 = sample_sig"
  "c_pkh blocked_card (Suc 0) = sample_dec"
  by (simp_all add: blocked_card_def)

lemma blocked_card_inv: "card_inv blocked_card"
  by (simp add: card_inv_def slot_ok_def blocked_card_def sample_key_defs)

theorem blocked_forever_witness:
  "\<exists>replies c'. run_seq RawCommand sample_lib [[0, 0x20, 0, 0x81, 1, 2]] blocked_card = Some (replies, c') \<and>
     c_errorCounterPW1 c' = 0 \<and> slot_locked c' (Some 0)"
proof -
  have "\<exists>replies c'. run_seq RawCommand sample_lib [[0, 0x20, 0, 0x81, 1, 2]] blocked_card = Some (replies, c')"
    by (simp add: RawCommand_def Command_verify_sig Verify_alt pin_slot_def verify_pin_def sample_key_defs)
  then show ?thesis
    using blocked_forever [OF sample_lib_pgp blocked_card_inv]
    by (fastforce simp: slot_locked_def sample_key_defs)
qed

theorem unlock_needs_passphrase_witness:
  "\<exists>r c'. Command sample_lib verify_sig_cmd sample_card = Some (r, c') \<and>
     slot_locked sample_card (Some 0) \<and> \<not> slot_locked c' (Some 0) \<and>
     (\<exists>a p. subkey_priv sample_card (Some 0) = Some (a, p) \<and>
        fst (PkDecrypt sample_lib (c_pkh sample_card p) (CData verify_sig_cmd)) = None)"
proof -
  obtain r c' where run: "Command sample_lib verify_sig_cmd sample_card = Some (r, c')"
    and "\<not> slot_locked c' (Some 0)"
    by (simp add: Command_verify_sig Verify_alt pin_slot_def verify_pin_def sample_key_defs
        slot_locked_def [of "_\<lparr>c_errorCounterPW1 := _\<rparr>"])
  moreover have "slot_locked sample_card (Some 0)"
    by (simp add: slot_locked_def sample_key_defs)
  ultimately show ?thesis
    using unlock_needs_passphrase [OF sample_lib_pgp sample_card_pins(3) run, of "Some 0"] by auto
qed

theorem Select_other_locks_witness:
  "\<exists>c'. Select sample_lib [1] (open_card\<lparr>c_selected := True\<rparr>) =
      Some ((Some (FileNotFound sample_lib), None), c') \<and> slot_locked c' (Some 0) \<and> slot_locked c' (Some 1)"
proof -
  let ?c = "open_card\<lparr>c_selected := True\<rparr>"
  have same: "same_keys open_card ?c" "card_identity ?c = card_identity open_card"
    by (simp_all add: same_keys_def card_identity_def)
  have "card_inv ?c" "subkey_priv ?c (Some a) = Some (a, a)" "c_dec ?c = sample_dec" for a
    using same_keys_inv [OF same] open_card_inv same_keys_slots(1) [OF same(1)]
    by (simp_all add: open_card_def)
  then show ?thesis
    using Select_other_locks [of ?c "[1]" sample_lib]
    by (auto simp: RID_def AID_def sample_sig_def sample_dec_def)
qed

definition encipher_cmd_apdu :: capdu where
  "encipher_cmd_apdu = \<lparr>CLA = 0, INS = INS_PSO, P1 = 0x86, P2 = 0x80, CData = [], CRest = []\<rparr>"

theorem Command_panics_witness:
  "Command sample_lib encipher_cmd_apdu blank_card = None \<and> subkey_priv blank_card (c_Dec blank_card) = None"
proof -
  have none: "c_Sig blank_card = None" "c_Dec blank_card = None" "c_Aut blank_card = None"
    "c_CA blank_card = []"
    by (simp_all add: blank_card_def)
  have "card_inv blank_card"
    by (simp add: card_inv_def slot_ok_def none) (simp add: blank_card_def)
  moreover have run: "Command sample_lib encipher_cmd_apdu blank_card = None"
    by (simp add: Command_def encipher_cmd_apdu_def dispatch_def security_operation_def
        Encipher_def join16_def LED_def none)
  ultimately show ?thesis
    using Command_panics [of blank_card sample_lib encipher_cmd_apdu]
    by (auto simp: none slot_public_def encipher_cmd_apdu_def)
qed

lemma lock_misses_aut:
  assumes "card_inv c" and "pv_Encrypted (c_sig c)"
    and "subkey_priv c (c_Sig c) = Some (a, p)" and "subkey_priv c (c_Aut c) = Some (b, p)"
    and "a \<noteq> b" and "\<not> pv_Encrypted (c_pkh c p)"
  shows "\<exists>r c'. Verify L PW_LOCK PW1_CDS [] c = Some (r, c') \<and>
    slot_locked c' (c_Sig c') \<and> subkey_priv c' (c_Aut c') = Some (b, p) \<and> \<not> slot_locked c' (c_Aut c')"
proof (intro exI conjI)
  let ?c = "set_private a (c_sig c) c"
  let ?c' = "signalVerificationStatus ?c"
  show "Verify L PW_LOCK PW1_CDS [] c = Some ((Some (CommandCompleted []), None), ?c')"
    using assms by (intro PW_LOCK_signature)
  have ids: "c_Sig ?c' = c_Sig c" "c_Aut ?c' = c_Aut c"
    using card_identityD [OF signal_frame(2)] card_identityD [OF set_private_frame(1)] by auto
  have aut: "subkey_priv ?c (c_Aut c) = Some (b, p)"
    using assms(4,5) subkey_priv_Some [OF assms(4)] by (simp add: subkey_priv_set_private)
  then show "subkey_priv ?c' (c_Aut ?c') = Some (b, p)"
    unfolding ids same_keys_slots(1) [OF signal_frame(1)] .
  show "slot_locked ?c' (c_Sig ?c')"
    unfolding ids using relocked_signature [OF assms(3)] assms(2) by simp
  have "p < c_pknext c"
    using assms(1,4) by (simp add: card_inv_def slot_ok_def)
  then show "\<not> slot_locked ?c' (c_Aut ?c')"
    unfolding ids using aut assms(6) by (simp add: slot_locked_def [of ?c] frame_simps)
qed

text \<open>
  C23. Locking does not reach the authentication key: when the signature subkey may also
  authenticate, the card keeps a copy of it that shares the decrypted private key, and after
  PW\_LOCK (or the signature that triggers it) the copy still holds it in the clear.
\<close>

theorem lock_misses_authentication_key:
  assumes "card_inv c" and "pv_Encrypted (c_sig c)"
    and "subkey_priv c (c_Sig c) = Some (a, p)" and "subkey_priv c (c_Aut c) = Some (b, p)"
    and "a \<noteq> b" and "\<not> pv_Encrypted (c_pkh c p)"
  shows "\<exists>r c'. Verify L PW_LOCK PW1_CDS [] c = Some (r, c') \<and>
    slot_locked c' (c_Sig c') \<and> subkey_priv c' (c_Aut c') = Some (b, p) \<and> \<not> slot_locked c' (c_Aut c')"
  using assms by (rule lock_misses_aut)

text \<open>
  Nor does the status LED tell: with the decryption key locked too it goes off, while the authentication subkey still
  holds its private key decrypted.
\<close>

theorem led_misses_authentication_key:
  assumes "card_inv c" and "pv_Encrypted (c_sig c)"
    and "subkey_priv c (c_Sig c) = Some (a, p)" and "subkey_priv c (c_Aut c) = Some (b, p)"
    and "a \<noteq> b" and "\<not> pv_Encrypted (c_pkh c p)" and "subkey_priv c (c_Dec c) = Some (d, q)"
    and "a \<noteq> d" and "pv_Encrypted (c_pkh c q)"
  shows "\<exists>r c'. Verify L PW_LOCK PW1_CDS [] c = Some (r, c') \<and> \<not> c_led_blue c' \<and>
    subkey_priv c' (c_Aut c') = Some (b, p) \<and> \<not> slot_locked c' (c_Aut c')"
proof -
  obtain r c' where run: "Verify L PW_LOCK PW1_CDS [] c = Some (r, c')" and sig: "slot_locked c' (c_Sig c')"
    and aut: "subkey_priv c' (c_Aut c') = Some (b, p)" "\<not> slot_locked c' (c_Aut c')"
    using lock_misses_aut [OF assms(1-6)] by blast
  have "slot_locked c (c_Dec c)"
    using assms(7,9) by (simp add: slot_locked_def)
  then have "slot_locked c' (c_Dec c')"
    using quiet_stepD(5) [OF lock.run_quiet [OF run] assms(1)] card_identityD(2) [OF Verify_identity [OF run]] by simp
  then have "\<not> c_led_blue c'"
    using Verify_led [OF run] sig by (auto simp: led_ok_def slot_unlocked_def slot_locked_def split: option.splits)
  with run aut show ?thesis
    by blast
qed

definition auth_card :: card where
  "auth_card = open_card\<lparr>c_Aut := Some 2, c_aut := sample_sig,
     c_skh := (c_skh open_card)(2 := c_skh open_card 0)\<rparr>"

theorem lock_misses_authentication_key_witness:
  "\<exists>r c'. Verify sample_lib PW_LOCK PW1_CDS [] auth_card = Some (r, c') \<and>
     slot_locked c' (c_Sig c') \<and> subkey_priv c' (c_Aut c') = Some (2, 0) \<and> \<not> slot_locked c' (c_Aut c')"
proof -
  have simps: "c_Sig auth_card = Some 0" "c_Dec auth_card = Some 1" "c_Aut auth_card = Some 2"
    "c_sig auth_card = sample_sig" "c_dec auth_card = sample_dec" "c_aut auth_card = sample_sig"
    "c_pkh auth_card = c_pkh open_card" "c_pknext auth_card = 2" "c_errorCounterPW1 auth_card = 3"
    "subkey_priv auth_card (Some 0) = Some (0, 0)" "subkey_priv auth_card (Some 2) = Some (2, 0)"
    "subkey_priv auth_card (Some (Suc 0)) = Some (1, 1)"
    by (simp_all add: auth_card_def subkey_priv_def open_card_def)
  have "card_inv auth_card"
    by (simp add: card_inv_def slot_ok_def simps sample_key_defs)
  then show ?thesis
    using lock_misses_authentication_key [of auth_card 0 0 2 sample_lib]
    by (simp add: simps sample_key_defs)
qed

end
