(* ===== verification/CardInit.thy ===== *)
theory CardInit
  imports CardCommand
begin

text \<open>
  Initialization and whole sessions of a card: \<^verbatim>\<open>Init\<close> of
  \<^verbatim>\<open>src/internal/icc/interface.go\<close> establishes the invariant that \<open>CardCommand\<close> keeps,
  so it holds in every state a session of APDUs reaches; and what a failed \<^verbatim>\<open>Init\<close> leaves
  behind.
\<close>

section \<open>Establishing the invariant\<close>

text \<open>
  What is assumed of the imported key ring: private subkeys have a fingerprint, and two with the
  same fingerprint agree on being protected by a passphrase. Fresh is a card as the firmware
  allocates it.
\<close>

definition private_subkeys :: "entity \<Rightarrow> privkey list" where
  "private_subkeys e = List.map_filter ps_PrivateKey (ent_Subkeys e)"

definition entity_ok :: "entity \<Rightarrow> bool" where
  "entity_ok e \<longleftrightarrow>
     (\<forall>k \<in> set (private_subkeys e). pv_Fingerprint k \<noteq> [] \<and>
        (\<forall>k' \<in> set (private_subkeys e).
           pv_Fingerprint k = pv_Fingerprint k' \<longrightarrow> pv_Encrypted k = pv_Encrypted k'))"

text \<open>A card before its initialization: no subkey is selected, no private key is cached, there are no tries.\<close>

definition fresh :: "card \<Rightarrow> bool" where
  "fresh c \<longleftrightarrow>
     \<not> c_initialized c \<and> c_Sig c = None \<and> c_Dec c = None \<and> c_Aut c = None \<and>
     c_sig c = privkey_zero \<and> c_dec c = privkey_zero \<and> c_aut c = privkey_zero \<and>
     c_errorCounterPW1 c = 0"

lemma fresh_inv: "fresh c \<Longrightarrow> card_inv c"
  by (simp add: fresh_def card_inv_def slot_ok_def subkey_priv_def)

lemma length_subkey_cells [simp]: "length (subkey_cells e) = length (ent_Subkeys e)"
  by (simp add: subkey_cells_def)

lemma subkey_cells_nth [simp]:
  "i < length (ent_Subkeys e) \<Longrightarrow> subkey_cells e ! i = subkey_cell i (ent_Subkeys e ! i)"
  by (simp add: subkey_cells_def)

text \<open>The private key a slot of a freshly loaded card refers to is one of the key ring's.\<close>

lemma loaded_slot:
  assumes "c_skh c = subkey_heap (subkey_cells e)" and "c_pkh c = private_heap e"
    and "sk \<in> {s, d, a}" and "decodeSubkeys (subkey_cells e) = (s, d, a)"
    and "subkey_priv c sk = Some (b, p)"
  shows "p < length (ent_Subkeys e)" and "c_pkh c p \<in> set (private_subkeys e)"
proof -
  let ?n = "length (ent_Subkeys e)"
  have bound: "last_index P (subkey_cells e) = Some j \<Longrightarrow> j < ?n" for P j
    using last_index_SomeD by fastforce
  have "sk = Some b"
    using assms(5) by (rule subkey_priv_Some)
  then consider "last_index for_signing (subkey_cells e) = Some b"
    | "last_index for_decryption (subkey_cells e) = Some b"
    | j where "last_index for_authentication (subkey_cells e) = Some j" "b = ?n + j"
    using assms(3,4)
    by (cases "last_index for_authentication (subkey_cells e)") (auto simp: decodeSubkeys_alt)
  then have "\<exists>i < ?n. c_skh c b = subkey_cells e ! i"
    by cases (auto simp: assms(1) subkey_heap_def dest: bound)
  then obtain i where i: "i < ?n" "c_skh c b = subkey_cell i (ent_Subkeys e ! i)"
    by auto
  then obtain k where k: "ps_PrivateKey (ent_Subkeys e ! i) = Some k" and p: "p = i"
    using assms(5) by (auto simp: subkey_priv_def subkey_cell_def split: option.splits)
  show "p < ?n"
    using i p by simp
  have "k \<in> set (private_subkeys e)"
    using k i by (force simp: private_subkeys_def map_filter_def)
  then show "c_pkh c p \<in> set (private_subkeys e)"
    using k i p by (simp add: assms(2) private_heap_def)
qed

lemma load_entity_inv:
  assumes "entity_ok e" and "c_sig c = privkey_zero" and "c_dec c = privkey_zero"
  shows "card_inv ((load_entity e c)\<lparr>c_errorCounterPW1 := DEFAULT_PW1_ERROR_COUNTER, c_initialized := b\<rparr>)"
proof -
  obtain s d a where ptrs: "decodeSubkeys (subkey_cells e) = (s, d, a)"
    by (metis surj_pair)
  define c1 where "c1 = c\<lparr>c_skh := subkey_heap (subkey_cells e), c_pkh := private_heap e,
    c_pknext := length (subkey_cells e), c_Sig := s, c_Dec := d, c_Aut := a\<rparr>"
  define c2 where "c2 = c1\<lparr>c_sig := cached c1 s (c_sig c), c_dec := cached c1 d (c_dec c),
    c_aut := cached c1 a (c_aut c), c_errorCounterPW1 := DEFAULT_PW1_ERROR_COUNTER, c_initialized := b\<rparr>"
  have heaps: "c_skh c1 = subkey_heap (subkey_cells e)" "c_pkh c1 = private_heap e"
    "c_pknext c1 = length (ent_Subkeys e)"
    by (simp_all add: c1_def)
  note slot = loaded_slot [OF heaps(1,2) _ ptrs]
  have same: "same_keys c1 c2"
    by (simp add: c2_def same_keys_def)
  have ok: "slot_ok c2 sk (cached c1 sk old)" if "sk \<in> {s, d, a}" for sk old
  proof (cases "subkey_priv c1 sk")
    case (Some bp)
    then show ?thesis
      unfolding same_keys_slots(4) [OF same]
      using slot(1) [OF that, of "fst bp" "snd bp"] heaps(3)
      by (simp add: slot_ok_def cached_def split_beta)
  qed (simp add: slot_ok_def same_keys_slots(1) [OF same])
  have keys: "cached c1 sk privkey_zero = privkey_zero \<or>
      cached c1 sk privkey_zero \<in> set (private_subkeys e)" if "sk \<in> {s, d, a}" for sk
  proof (cases "subkey_priv c1 sk")
    case (Some bp)
    then show ?thesis
      using slot(2) [OF that, of "fst bp" "snd bp"] by (simp add: cached_def split_beta)
  qed (simp add: cached_def)
  have "pv_Fingerprint privkey_zero = []"
    by (simp add: privkey_zero_def)
  then have "pv_Encrypted (c_sig c2) = pv_Encrypted (c_dec c2)"
    if "pv_Fingerprint (c_sig c2) = pv_Fingerprint (c_dec c2)"
    using assms keys [of s] keys [of d] that
    by (simp add: entity_ok_def c2_def) metis
  moreover have "c_Sig c2 = s" "c_Dec c2 = d" "c_Aut c2 = a" "c_errorCounterPW1 c2 = 3"
    "c_sig c2 = cached c1 s (c_sig c)" "c_dec c2 = cached c1 d (c_dec c)" "c_aut c2 = cached c1 a (c_aut c)"
    by (simp_all add: c2_def c1_def)
  ultimately have "card_inv c2"
    using ok by (simp add: card_inv_def)
  then show ?thesis
    by (simp add: load_entity_def Let_def ptrs c2_def c1_def)
qed

lemma Init_success:
  assumes "Init L c = Some (None, c')"
  obtains ent armored c3 where "\<not> c_initialized c" "decodeArmoredKey L armored = (Some ent, None)"
      "c3 = (load_entity ent (c\<lparr>c_ArmoredKey := armored, c_Key := Some ent\<rparr>))
         \<lparr>c_errorCounterPW1 := DEFAULT_PW1_ERROR_COUNTER, c_initialized := True\<rparr>"
      "c' = signalVerificationStatus (LED ''blue'' False (LED ''white'' False c3))"
  using assms
  by (auto simp: Init_def Let_def bind_eq_Some_conv split: if_splits option.splits prod.splits)

lemma Init_ok:
  assumes "Init L c = Some (None, c')" and "fresh c"
    and "\<forall>armored ent. decodeArmoredKey L armored = (Some ent, None) \<longrightarrow> entity_ok ent"
  shows "card_inv c' \<and> led_ok c' \<and> c_initialized c' \<and> c_errorCounterPW1 c' = DEFAULT_PW1_ERROR_COUNTER"
  using assms(1)
proof (cases rule: Init_success)
  case (1 ent armored c3)
  have "card_inv c3"
    unfolding 1(3) using assms(2,3) 1(2) by (intro load_entity_inv) (auto simp: fresh_def)
  moreover have "card_inv (LED nm on x) = card_inv x" for nm on x
    by (rule same_keys_inv) (simp_all add: frame_simps)
  moreover have "c_initialized c' = c_initialized c3"
    unfolding 1(4) by (simp add: signalVerificationStatus_def LED_def)
  ultimately show ?thesis
    using 1 by (auto simp: signal_led_ok frame_simps)
qed

section \<open>Properties\<close>

text \<open>
  \<^verbatim>\<open>Init\<close> on a fresh card establishes the invariant and the truth of the status LED, with all three
  tries available.
\<close>

theorem Init_establishes:
  assumes "Init L c = Some (None, c')" and "fresh c"
    and "\<forall>armored ent. decodeArmoredKey L armored = (Some ent, None) \<longrightarrow> entity_ok ent"
  shows "card_inv c' \<and> led_ok c' \<and> c_initialized c' \<and> c_errorCounterPW1 c' = DEFAULT_PW1_ERROR_COUNTER"
  using assms by (rule Init_ok)

lemma sample_entity_ok: "entity_ok sample_entity"
  by (simp add: entity_ok_def private_subkeys_def map_filter_def sample_entity_def sample_sig_def
      sample_dec_def)

lemma sample_decode [simp]: "decodeArmoredKey sample_lib k = (Some sample_entity, None)"
  by (simp add: decodeArmoredKey_def)

lemma blank_card_fresh: "fresh blank_card" "\<not> c_SNVS blank_card" "\<not> c_initialized blank_card"
  by (simp_all add: fresh_def blank_card_def)

lemma blank_card_Init: "\<exists>c'. Init sample_lib blank_card = Some (None, c')"
proof -
  have "Status ((load_entity sample_entity c)\<lparr>c_errorCounterPW1 := n, c_initialized := b\<rparr>) \<noteq> None" for c n b
    by (simp add: Status_def subkey_status_def load_entity_def Let_def decodeSubkeys_def
        subkey_cells_def sample_entity_def subkey_cell_def subkey_heap_def no_flags_def)
  then show ?thesis
    using blank_card_fresh(2,3)
    by (auto simp: Init_def Let_def simp del: not_None_eq split: option.split)
qed

theorem Init_establishes_witness:
  "\<exists>c'. Init sample_lib blank_card = Some (None, c') \<and> card_inv c' \<and> led_ok c' \<and> c_initialized c'"
  using Init_establishes [of sample_lib blank_card] blank_card_Init blank_card_fresh sample_entity_ok
  by auto

text \<open>
  In every state a session reaches, after initialization and any sequence of APDUs, the
  invariant holds, the blue LED shows whether a key is unlocked, the retry counter is at most
  three, and the card's keys and identity are those it was initialized with.
\<close>

theorem session_invariant:
  assumes "pgp_ok L" and "Init L c = Some (None, c0)" and "fresh c"
    and "\<forall>armored ent. decodeArmoredKey L armored = (Some ent, None) \<longrightarrow> entity_ok ent"
    and "run_seq RawCommand L bufs c0 = Some (replies, c')"
  shows "card_inv c' \<and> led_ok c' \<and> c_errorCounterPW1 c' \<le> 3 \<and> card_identity c' = card_identity c0"
proof -
  have "card_inv c0" "led_ok c0"
    using Init_ok [OF assms(2-4)] by auto
  with raw_command.seq_inv [OF assms(1) _ assms(5)] raw_command.seq_led [OF _ assms(5)]
    raw_command.seq_identity [OF assms(5)]
  show ?thesis
    by (simp add: card_inv_def)
qed

theorem session_invariant_witness:
  "\<exists>c0 replies c'. Init sample_lib blank_card = Some (None, c0) \<and>
     run_seq RawCommand sample_lib [[0, 0x20, 0, 0x81, 1, 2], [0, 1, 2]] c0 = Some (replies, c') \<and>
     card_inv c' \<and> led_ok c'"
proof -
  obtain c0 where init: "Init sample_lib blank_card = Some (None, c0)"
    using blank_card_Init by blast
  have "card_inv c0"
    using Init_ok [OF init] blank_card_fresh sample_entity_ok by simp
  then have "Verify sample_lib PW_VERIFY PW1_CDS [1, 2] c0 \<noteq> None"
    by (rule Verify_returns)
  then obtain replies c' where
    run: "run_seq RawCommand sample_lib [[0, 0x20, 0, 0x81, 1, 2], [0, 1, 2]] c0 = Some (replies, c')"
    by (auto simp: RawCommand_def Command_verify_sig sample_Unmarshal_def [of "[0, 1, 2]"])
  show ?thesis
    using session_invariant [OF sample_lib_pgp init _ _ run] init run blank_card_fresh sample_entity_ok
    by auto
qed

text \<open>
  C24. A failed decryption is final: \<^verbatim>\<open>Init\<close> has by then overwritten the wrapped key with
  nothing, so every later attempt fails too, also after the cause of the failure is gone.
\<close>

theorem failed_decryption_is_final:
  fixes L :: "('x) pgplib_scheme"
  assumes "\<not> c_initialized c" and "c_SNVS c"
    and "snvs_Decrypt L (c_ArmoredKey c) DiversifierPGP = Some (out, Some e)"
  shows "\<exists>c'. Init L c = Some (Some (wrap_err ''OpenPGP key decryption failed'' e), c') \<and>
    (\<forall>L' :: ('x) pgplib_scheme. \<exists>e' c''. Init L' c' = Some (Some e', c''))"
proof -
  have "out = []"
    using assms(3)
    by (auto simp: snvs_Decrypt_def Decrypt_imx6_def Decrypt_stub_def decryptCTR_def Let_def
        split: if_splits prod.splits option.splits)
  moreover have "\<exists>e' c''. Init L' (c\<lparr>c_ArmoredKey := []\<rparr>) = Some (Some e', c'')"
    for L' :: "('x) pgplib_scheme"
  proof -
    have "\<exists>e' out. snvs_Decrypt L' [] DiversifierPGP = Some (out, Some e')"
      by (cases "snd (DeriveKey L' DiversifierPGP kdf_iv (-1))")
        (simp_all add: snvs_Decrypt_def Decrypt_imx6_def Decrypt_stub_def split_beta)
    then obtain e' out where "snvs_Decrypt L' [] DiversifierPGP = Some (out, Some e')"
      by blast
    then show ?thesis
      using assms(1,2) by (simp add: Init_def Let_def)
  qed
  moreover have "Init L c = Some (Some (wrap_err ''OpenPGP key decryption failed'' e), c\<lparr>c_ArmoredKey := out\<rparr>)"
    using assms by (simp add: Init_def Let_def)
  ultimately show ?thesis
    by blast
qed

theorem failed_decryption_is_final_witness:
  "\<exists>e c'. Init sample_lib (blank_card\<lparr>c_SNVS := True\<rparr>) = Some (Some e, c') \<and>
     (\<forall>L' :: pgplib. \<exists>e' c''. Init L' c' = Some (Some e', c''))"
  using failed_decryption_is_final [of "blank_card\<lparr>c_SNVS := True\<rparr>" sample_lib "[]" "GoErr ''invalid length''"]
  by (auto simp: snvs_Decrypt_def Decrypt_imx6_def blank_card_def)

section \<open>Everything that can happen to an initialized card\<close>

text \<open>
  The components around the card (reader, console, PKCS\#11 service) change it through
  \<^verbatim>\<open>Verify\<close> and quiet operations only; \<open>card_moves\<close> is the reflexive-transitive closure
  of both, and the laws of the contract carry over to it.
\<close>

inductive card_moves :: "('x) pgplib_scheme \<Rightarrow> card \<Rightarrow> card \<Rightarrow> bool" for L where
  stay: "card_moves L c c"
| quiet: "card_moves L c c1 \<Longrightarrow> quiet_step c1 c' \<Longrightarrow> card_moves L c c'"
| verify: "card_moves L c c1 \<Longrightarrow> Verify L p1 p2 pw c1 = Some (r, c') \<Longrightarrow> card_moves L c c'"

lemma card_moves_trans:
  assumes "card_moves L c1 c2" and "card_moves L c c1"
  shows "card_moves L c c2"
  using assms by (induction rule: card_moves.induct) (auto intro: card_moves.intros)

lemma card_moves_quiet: "quiet_step c c' \<Longrightarrow> card_moves L c c'"
  by (rule card_moves.quiet [OF card_moves.stay])

lemma card_moves_verify: "Verify L p1 p2 pw c = Some (r, c') \<Longrightarrow> card_moves L c c'"
  by (rule card_moves.verify [OF card_moves.stay])

lemma card_moves_identity: "card_moves L c c' \<Longrightarrow> card_identity c' = card_identity c"
  by (induction rule: card_moves.induct) (auto dest: quiet_stepD Verify_identity)

lemma card_moves_inv: "card_moves L c c' \<Longrightarrow> pgp_ok L \<Longrightarrow> card_inv c \<Longrightarrow> card_inv c'"
  by (induction rule: card_moves.induct) (auto dest: quiet_stepD Verify_inv)

lemma card_moves_led: "card_moves L c c' \<Longrightarrow> led_ok c \<Longrightarrow> led_ok c'"
  by (induction rule: card_moves.induct) (auto dest: quiet_stepD Verify_led)

lemma card_moves_power: "card_moves L c c' \<Longrightarrow> power_ok c \<Longrightarrow> power_ok c'"
  by (induction rule: card_moves.induct) (auto dest: quiet_stepD Verify_power)

lemma card_moves_blocked:
  assumes "card_moves L c c'" and "pgp_ok L" and "card_inv c" and "c_errorCounterPW1 c = 0"
  shows "c_errorCounterPW1 c' = 0 \<and> (\<forall>sk \<in> {c_Sig c, c_Dec c}. slot_locked c sk \<longrightarrow> slot_locked c' sk)"
  using assms
proof induction
  case (quiet c c1 c')
  then have "card_inv c1" and ids: "card_identity c1 = card_identity c"
    by (auto dest: card_moves_inv card_moves_identity)
  then show ?case
    using quiet quiet_stepD(4,5) [OF quiet.hyps(2)] card_identityD [OF ids] by auto
next
  case (verify c c1 p1 p2 pw r c')
  then have "card_inv c1" and ids: "card_identity c1 = card_identity c"
    by (auto dest: card_moves_inv card_moves_identity)
  then show ?case
    using verify Verify_counter_zero [OF verify.hyps(2)] Verify_blocked_keeps_locked [OF _ verify.hyps(2)]
      card_identityD [OF ids]
    by auto
qed simp

lemma Command_moves: "Command L cmd c = Some (r, c') \<Longrightarrow> card_moves L c c'"
  by (erule Command_cases) (auto intro: card_moves_quiet card_moves_verify)

lemma RawCommand_moves: "RawCommand L buf c = Some (r, c') \<Longrightarrow> card_moves L c c'"
  by (erule RawCommand_cases) (auto intro: card_moves.stay Command_moves)

end
