(* ===== verification/CardRpc.thy ===== *)
theory CardRpc
  imports CardInit
begin

text \<open>
  The PKCS\#11 service of the card, \<^verbatim>\<open>src/internal/icc/rpc.go\<close>. The p11-kit module and
  \<^verbatim>\<open>crypto/x509\<close> are parameters (\<open>rpclib\<close>), with objects and certificates as opaque
  bytes; \<open>P11Requests rw\<close> is how often handling the connection \<open>rw\<close> asks the slot for its
  objects.
\<close>

type_synonym p11_object = bytes

record certificate_template =
  NotBefore :: int
  NotAfter :: string
  SerialNumber :: int
  CommonName :: string

record rpclib = pgplib +
  CreateCertificate :: "rng \<Rightarrow> certificate_template \<Rightarrow> bytes \<Rightarrow> (bytes \<times> goerr option) \<times> rng"
  ParseCertificate :: "bytes \<Rightarrow> bytes \<times> goerr option"
  NewX509CertificateObject :: "bytes \<Rightarrow> p11_object \<times> goerr option"
  NewPrivateKeyObject :: "privmat \<Rightarrow> p11_object \<times> goerr option"
  NewPublicKeyObject :: "privmat \<Rightarrow> p11_object \<times> goerr option"
  SetCertificate :: "p11_object \<Rightarrow> bytes \<Rightarrow> p11_object \<times> goerr option"
  P11Requests :: "bytes \<Rightarrow> nat"
  P11Error :: "bytes \<Rightarrow> goerr option"

section \<open>The objects of the slot\<close>

definition certTemplate :: "card \<Rightarrow> privkey \<Rightarrow> certificate_template" where
  "certTemplate c k = \<lparr>NotBefore = pv_CreationTime k, NotAfter = ''9999-12-31 23:59:59 UTC'',
     SerialNumber = sint (pv_KeyId k), CommonName = c_Name c\<rparr>"

text \<open>A Go call that returns a value and an error, followed by \<^verbatim>\<open>if err != nil { return nil, err }\<close>.\<close>

definition go_try :: "'a \<times> goerr option \<Rightarrow> ('a \<Rightarrow> 'b list \<times> goerr option) \<Rightarrow> 'b list \<times> goerr option" where
  "go_try r k = (case r of (_, Some e) \<Rightarrow> ([], Some e) | (x, None) \<Rightarrow> k x)"

definition rsa_objects ::
    "('x) rpclib_scheme \<Rightarrow> bytes \<times> goerr option \<Rightarrow> privmat \<Rightarrow> p11_object list \<times> goerr option" where
  "rsa_objects L cert_der priv =
     go_try cert_der (\<lambda>der.
     go_try (ParseCertificate L der) (\<lambda>cert.
     go_try (NewX509CertificateObject L cert) (\<lambda>obj1.
     go_try (NewPrivateKeyObject L priv) (\<lambda>obj2.
     go_try (NewPublicKeyObject L priv) (\<lambda>obj.
     go_try (SetCertificate L obj cert) (\<lambda>obj3. ([obj1, obj2, obj3], None)))))))"

definition ecdsa_objects :: "('x) rpclib_scheme \<Rightarrow> privmat \<Rightarrow> p11_object list \<times> goerr option" where
  "ecdsa_objects L priv =
     go_try (NewPrivateKeyObject L priv) (\<lambda>obj1.
     go_try (NewPublicKeyObject L priv) (\<lambda>obj2. ([obj1, obj2], None)))"

definition slot_objects ::
    "('x) rpclib_scheme \<Rightarrow> privkey \<Rightarrow> card \<Rightarrow> (p11_object list \<times> goerr option) \<times> card" where
  "slot_objects L k c =
     (case pv_PrivateKey k of
        Some (RsaPriv d) \<Rightarrow>
          let (cert_der, s) = CreateCertificate L (c_rng c) (certTemplate c k) d
          in (rsa_objects L cert_der (RsaPriv d), c\<lparr>c_rng := s\<rparr>)
      | Some (StdEcdsaPriv d) \<Rightarrow> (ecdsa_objects L (StdEcdsaPriv d), c)
      | _ \<Rightarrow> (([], Some (GoErr ''card key not supported'')), c))"

definition getObjects ::
    "('x) rpclib_scheme \<Rightarrow> card \<Rightarrow> ((p11_object list \<times> goerr option) \<times> card) option" where
  "getObjects L c =
     (case subkey_priv c (c_Sig c) of
        None \<Rightarrow> Some (([], Some (GoErr ''card key not supported'')), c)
      | Some (a, p) \<Rightarrow>
          if pv_Encrypted (c_pkh c p)
          then Some (([], Some (GoErr ''security condition not satisfied'')), c)
          else
            let (r, c1) = slot_objects L (c_pkh c p) c
            in if PW1_CDS_MULTI = 0
               then map_option (\<lambda>(_, c2). (r, c2)) (Verify L PW_LOCK PW1_CDS [] c1)
               else Some (r, c1))"

section \<open>The service\<close>

record p11_slot =
  slot_ID :: nat
  slot_Description :: string
  slot_Label :: string
  slot_Manufacturer :: string
  slot_Model :: string
  slot_Serial :: string
  slot_HardwareVersion :: "nat \<times> nat"
  slot_FirmwareVersion :: "nat \<times> nat"

record p11_handler =
  h_Manufacturer :: string
  h_Library :: string
  h_LibraryVersion :: "nat \<times> nat"
  h_Slots :: "p11_slot list"

definition rpc_slot :: "card \<Rightarrow> p11_slot" where
  "rpc_slot c = \<lparr>slot_ID = 0x01, slot_Description = ''GoKey PKCS#11 RPC'', slot_Label = ''GoKey'',
     slot_Manufacturer = ''WithSecure Foundry'', slot_Model = ''USB armory Mk II'',
     slot_Serial = fmt_X (c_Serial c),
     slot_HardwareVersion = (2, 0), slot_FirmwareVersion = (0, 1)\<rparr>"

definition rpc_handler :: "card \<Rightarrow> p11_handler" where
  "rpc_handler c = \<lparr>h_Manufacturer = ''WithSecure Foundry'', h_Library = ''GoKey'',
     h_LibraryVersion = (0, 1), h_Slots = [rpc_slot c]\<rparr>"

text \<open>The card's flag says whether the handler exists; the serial number it was built from never changes.\<close>

definition initRPC :: "card \<Rightarrow> card" where
  "initRPC c = c\<lparr>c_rpc := True\<rparr>"

fun serve_requests :: "('x) rpclib_scheme \<Rightarrow> nat \<Rightarrow> card \<Rightarrow> card option" where
  "serve_requests L 0 c = Some c"
| "serve_requests L (Suc n) c =
     do { (_, c1) \<leftarrow> getObjects L c; serve_requests L n c1 }"

definition ServeRPC :: "('x) rpclib_scheme \<Rightarrow> bytes \<Rightarrow> card \<Rightarrow> (goerr option \<times> card) option" where
  "ServeRPC L rw c =
     (let c0 = (if c_rpc c then c else initRPC c)
      in map_option (\<lambda>c1. (P11Error L rw, c1)) (serve_requests L (P11Requests L rw) c0))"

section \<open>The contract\<close>

lemma slot_objects_state: "slot_objects L k c = (r, c1) \<Longrightarrow> \<exists>s. c1 = c\<lparr>c_rng := s\<rparr>"
  by (auto simp: slot_objects_def Let_def split: option.splits privmat.splits prod.splits
      intro: exI [of _ "c_rng c"])

lemma rng_quiet [simp]: "quiet_step c (c\<lparr>c_rng := s\<rparr>)"
  by (rule same_keys_quiet) (simp_all add: same_keys_def card_identity_def power_ok_def)

lemma getObjects_cases:
  assumes "getObjects L c = Some (r, c')"
  obtains e where "r = ([], Some e)" "c' = c" "subkey_priv c (c_Sig c) = None \<or> slot_locked c (c_Sig c)"
  | a p s r' where "subkey_priv c (c_Sig c) = Some (a, p)" "\<not> pv_Encrypted (c_pkh c p)"
      "Verify L PW_LOCK PW1_CDS [] (c\<lparr>c_rng := s\<rparr>) = Some (r', c')"
  using assms
  by (auto simp: getObjects_def slot_locked_def split: option.splits if_splits prod.splits
      dest!: slot_objects_state)

lemma getObjects_quiet: "getObjects L c = Some (r, c') \<Longrightarrow> quiet_step c c'"
  by (erule getObjects_cases) (auto dest!: Verify_quiet intro: quiet_step_trans [OF rng_quiet])

lemma initRPC_quiet [simp]: "quiet_step c (initRPC c)"
  by (rule same_keys_quiet) (simp_all add: initRPC_def same_keys_def card_identity_def power_ok_def)

lemma serve_requests_quiet: "serve_requests L n c = Some c' \<Longrightarrow> quiet_step c c'"
proof (induction n arbitrary: c)
  case (Suc n)
  then obtain r c1 where "getObjects L c = Some (r, c1)" "serve_requests L n c1 = Some c'"
    by (auto simp: bind_eq_Some_conv)
  then show ?case
    using Suc.IH getObjects_quiet quiet_step_trans by blast
qed simp

lemma ServeRPC_quiet:
  assumes "ServeRPC L rw c = Some (r, c')"
  shows "quiet_step c c'"
proof -
  from assms have "serve_requests L (P11Requests L rw) (if c_rpc c then c else initRPC c) = Some c'"
    by (auto simp: ServeRPC_def Let_def)
  then have "quiet_step (if c_rpc c then c else initRPC c) c'"
    by (rule serve_requests_quiet)
  then show ?thesis
    using quiet_step_trans [OF initRPC_quiet] by (simp split: if_splits)
qed

section \<open>Properties\<close>

text \<open>
  C27. PKCS\#11 obeys the same lock as the card: objects are only handed out while the signature
  key is unlocked, and handing them out (or failing to) locks a passphrase-protected key again
  without touching the retry counter.
\<close>

theorem getObjects_locks:
  assumes "card_inv c" and "pv_Encrypted (c_sig c)" and "getObjects L c = Some ((objs, err), c')"
  shows "(objs \<noteq> [] \<longrightarrow> subkey_priv c (c_Sig c) \<noteq> None \<and> \<not> slot_locked c (c_Sig c)) \<and>
    (subkey_priv c (c_Sig c) \<noteq> None \<longrightarrow> slot_locked c' (c_Sig c)) \<and>
    c_errorCounterPW1 c' = c_errorCounterPW1 c"
proof (intro conjI impI)
  show "c_errorCounterPW1 c' = c_errorCounterPW1 c"
    using quiet_stepD(4) [OF getObjects_quiet [OF assms(3)]] .
  show "subkey_priv c (c_Sig c) \<noteq> None" "\<not> slot_locked c (c_Sig c)" if "objs \<noteq> []"
    using assms(3) that by (auto simp: getObjects_def slot_locked_def split: option.splits if_splits)
  show "slot_locked c' (c_Sig c)" if key: "subkey_priv c (c_Sig c) \<noteq> None"
    using assms(3)
  proof (cases rule: getObjects_cases)
    case (1 e)
    then show ?thesis
      using key by auto
  next
    case (2 a p s r')
    let ?c = "c\<lparr>c_rng := s\<rparr>"
    have same: "same_keys c ?c"
      by (simp add: same_keys_def)
    have "card_inv ?c"
      using quiet_stepD(2) [OF rng_quiet assms(1)] .
    moreover have "subkey_priv ?c (pin_slot PW1_CDS ?c) = Some (a, p)"
      using 2(1) same_keys_slots(1) [OF same] by (simp add: pin_slot_def)
    ultimately show ?thesis
      using lock_locks [OF _ 2(3)] assms(2) by (simp add: pin_slot_def)
  qed
qed

definition sample_rpc :: rpclib where
  "sample_rpc = pgplib.extend sample_lib
     \<lparr>CreateCertificate = (\<lambda>s t k. (([1], None), s)), ParseCertificate = (\<lambda>der. (der, None)),
      NewX509CertificateObject = (\<lambda>cert. (cert, None)), NewPrivateKeyObject = (\<lambda>k. ([2], None)),
      NewPublicKeyObject = (\<lambda>k. ([3], None)), SetCertificate = (\<lambda>obj cert. (obj @ cert, None)),
      P11Requests = (\<lambda>rw. 1), P11Error = (\<lambda>rw. None)\<rparr>"

lemma getObjects_returns:
  assumes "card_inv c"
  shows "getObjects L c \<noteq> None"
proof -
  have "card_inv (snd (slot_objects L k c))" for k
    using slot_objects_state [of L k c] quiet_stepD(2) [OF rng_quiet assms]
    by (cases "slot_objects L k c") auto
  then have "Verify L PW_LOCK PW1_CDS [] (snd (slot_objects L k c)) \<noteq> None" for k
    by (rule Verify_returns)
  then show ?thesis
    by (simp add: getObjects_def split_beta del: not_None_eq split: option.split)
qed

theorem getObjects_locks_witness:
  "\<exists>objs c'. getObjects sample_rpc open_card = Some ((objs, None), c') \<and>
     objs = [[1], [2], [3, 1]] \<and> slot_locked c' (Some 0)"
proof -
  have "fst (slot_objects sample_rpc (sample_sig\<lparr>pv_Encrypted := False\<rparr>) open_card) = ([[1], [2], [3, 1]], None)"
    by (simp add: slot_objects_def sample_rpc_def pgplib.defs rsa_objects_def go_try_def sample_key_defs)
  then obtain c' where "getObjects sample_rpc open_card = Some (([[1], [2], [3, 1]], None), c')"
    using getObjects_returns [OF open_card_inv, of sample_rpc]
    by (auto simp: getObjects_def split_beta sample_key_defs split: if_splits)
  then show ?thesis
    using getObjects_locks [OF open_card_inv, of sample_rpc "[[1], [2], [3, 1]]" None c']
    by (auto simp: sample_key_defs)
qed

text \<open>
  ECDSA signature keys are never exposed over PKCS\#11: the service only recognizes the key
  type of the standard library, not the one of the OpenPGP library that imported keys have, so
  the request fails even with the key unlocked.
\<close>

theorem getObjects_rejects_ecdsa:
  assumes "card_inv c" and "subkey_priv c (c_Sig c) = Some (a, p)"
    and "\<not> pv_Encrypted (c_pkh c p)" and "pv_PrivateKey (c_pkh c p) = Some (EcdsaPriv X d)"
  shows "\<exists>c'. getObjects L c = Some (([], Some (GoErr ''card key not supported'')), c')"
  using assms Verify_returns [OF assms(1), of L PW_LOCK PW1_CDS "[]"]
  by (auto simp: getObjects_def slot_objects_def)

theorem getObjects_rejects_ecdsa_witness:
  "\<exists>c'. getObjects sample_rpc (open_card\<lparr>c_pkh := (c_pkh open_card)
      (0 := (c_pkh open_card 0)\<lparr>pv_PrivateKey := Some (EcdsaPriv 1 [])\<rparr>)\<rparr>) =
    Some (([], Some (GoErr ''card key not supported'')), c')"
  by (rule getObjects_rejects_ecdsa [where a = 0 and p = 0 and X = 1 and d = "[]"])
    (simp_all add: card_inv_def slot_ok_def open_card_def sample_key_defs)

end
