(* ===== verification/UsbDevice.thy ===== *)
theory UsbDevice
  imports CardRpc
begin

text \<open>
  The USB descriptors, \<^verbatim>\<open>ConfigureDevice\<close> of \<^verbatim>\<open>src/internal/usb/device.go\<close> and
  \<^verbatim>\<open>ConfigureCCID\<close> of \<^verbatim>\<open>src/internal/usb/smartcard.go\<close>. The descriptor types, their
  defaults and the methods that add a string, a configuration or an interface belong to the USB
  driver and are parameters (\<open>usblib\<close>); the records have the fields the code assigns, and one
  field for whatever else the driver keeps.
\<close>

section \<open>Descriptors\<close>

text \<open>What an endpoint runs; the other interfaces bring functions of their own.\<close>

datatype endpoint_function = NoFunction | RunCCIDTx | RunCCIDRx | OtherFunction nat

record EndpointDescriptor =
  EndpointAddress :: byte
  Attributes :: byte
  MaxPacketSize :: u16
  EpFunction :: endpoint_function

record InterfaceDescriptor =
  NumEndpoints :: byte
  InterfaceClass :: byte
  InterfaceString :: byte
  ClassDescriptors :: "bytes list"
  Endpoints :: "EndpointDescriptor list"

record ConfigurationDescriptor =
  cf_Interfaces :: "InterfaceDescriptor list"
  cf_driver :: bytes

record DeviceDescriptor =
  DeviceClass :: byte
  DeviceSubClass :: byte
  DeviceProtocol :: byte
  VendorId :: u16
  ProductId :: u16
  bcdDevice :: u16
  iManufacturer :: byte
  iProduct :: byte
  iSerialNumber :: byte
  dd_NumConfigurations :: byte

record DeviceQualifier =
  dq_NumConfigurations :: byte
  dq_driver :: bytes

record CCIDDescriptor =
  VoltageSupport :: byte
  Protocols :: u32
  DefaultClock :: u32
  MaximumClock :: u32
  DataRate :: u32
  MaxDataRate :: u32
  MaxIFSD :: u32
  Features :: u32
  MaxCCIDMessageLength :: u32
  ClassGetResponse :: byte
  ClassEnvelope :: byte
  MaxCCIDBusySlots :: byte
  cd_driver :: bytes

record usbdev =
  ud_Descriptor :: "DeviceDescriptor option"
  ud_Qualifier :: "DeviceQualifier option"
  ud_Configurations :: "ConfigurationDescriptor list"
  ud_strings :: "bytes list"

record usblib = rpclib +
  SetLanguageCodes :: "u16 list \<Rightarrow> bytes list \<Rightarrow> bytes list"
  AddString :: "string \<Rightarrow> bytes list \<Rightarrow> (byte \<times> goerr option) \<times> bytes list"
  DeviceDefaults :: DeviceDescriptor
  ConfigurationDefaults :: ConfigurationDescriptor
  QualifierDefaults :: DeviceQualifier
  InterfaceDefaults :: InterfaceDescriptor
  CCIDDefaults :: CCIDDescriptor
  EndpointDefaults :: EndpointDescriptor
  CCIDBytes :: "CCIDDescriptor \<Rightarrow> bytes"
  AddConfiguration :: "ConfigurationDescriptor \<Rightarrow> usbdev \<Rightarrow> usbdev"
  AddInterface :: "InterfaceDescriptor \<Rightarrow> ConfigurationDescriptor \<Rightarrow> ConfigurationDescriptor"
  DTD_PAGES :: u32
  DTD_PAGE_SIZE :: u32
  SMARTCARD_DEVICE_CLASS :: byte
  usb_OUT :: nat
  usb_IN :: nat

section \<open>device.go\<close>

abbreviation (input) configurationIndex :: nat where "configurationIndex \<equiv> 0"
abbreviation (input) maxPacketSize :: u16 where "maxPacketSize \<equiv> 512"

definition add_string :: "('x) usblib_scheme \<Rightarrow> string \<Rightarrow> usbdev \<Rightarrow> byte \<times> usbdev" where
  "add_string L s d =
     (let ((i, _), strs) = AddString L s (ud_strings d) in (i, d\<lparr>ud_strings := strs\<rparr>))"

definition device_descriptor :: "('x) usblib_scheme \<Rightarrow> byte \<Rightarrow> byte \<Rightarrow> byte \<Rightarrow> DeviceDescriptor" where
  "device_descriptor L man product ser =
     (DeviceDefaults L)\<lparr>DeviceClass := 0xef, DeviceSubClass := 0x02, DeviceProtocol := 0x01,
       VendorId := 0x1209, ProductId := 0x2702, bcdDevice := 0x0001,
       iManufacturer := man, iProduct := product, iSerialNumber := ser\<rparr>"

definition ConfigureDevice :: "('x) usblib_scheme \<Rightarrow> string \<Rightarrow> usbdev \<Rightarrow> usbdev" where
  "ConfigureDevice L serial d =
     (let d1 = d\<lparr>ud_strings := SetLanguageCodes L [0x0409] (ud_strings d)\<rparr>;
          (man, d2) = add_string L ''WithSecure Foundry'' d1;
          (product, d3) = add_string L ''Composite Ethernet ECM / OpenPGP Smart Card Device'' d2;
          (ser, d4) = add_string L serial d3;
          d5 = AddConfiguration L (ConfigurationDefaults L)
                 (d4\<lparr>ud_Descriptor := Some (device_descriptor L man product ser)\<rparr>)
      in d5\<lparr>ud_Qualifier := Some ((QualifierDefaults L)
             \<lparr>dq_NumConfigurations := of_nat (length (ud_Configurations d5))\<rparr>)\<rparr>)"

section \<open>smartcard.go\<close>

definition ccid_descriptor :: "('x) usblib_scheme \<Rightarrow> CCIDDescriptor" where
  "ccid_descriptor L =
     (CCIDDefaults L)\<lparr>VoltageSupport := 0x7, Protocols := 0x3, DefaultClock := 4000,
       MaximumClock := 5000, DataRate := 9600, MaxDataRate := 625000,
       Features := 0x02 OR 0x04 OR 0x08 OR 0x10 OR 0x20 OR 0x40 OR 0x40000,
       MaxCCIDMessageLength := DTD_PAGES L * DTD_PAGE_SIZE L,
       MaxIFSD := DTD_PAGES L * DTD_PAGE_SIZE L,
       ClassGetResponse := 0xff, ClassEnvelope := 0xff, MaxCCIDBusySlots := 1\<rparr>"

definition ccid_endpoint :: "('x) usblib_scheme \<Rightarrow> byte \<Rightarrow> endpoint_function \<Rightarrow> EndpointDescriptor" where
  "ccid_endpoint L addr f =
     (EndpointDefaults L)\<lparr>EndpointAddress := addr, Attributes := 2, MaxPacketSize := maxPacketSize,
       EpFunction := f\<rparr>"

definition ccid_interface :: "('x) usblib_scheme \<Rightarrow> byte \<Rightarrow> InterfaceDescriptor" where
  "ccid_interface L i =
     (let iface = (InterfaceDefaults L)\<lparr>NumEndpoints := 2, InterfaceClass := SMARTCARD_DEVICE_CLASS L,
            InterfaceString := i\<rparr>
      in iface\<lparr>ClassDescriptors := ClassDescriptors iface @ [CCIDBytes L (ccid_descriptor L)],
           Endpoints := Endpoints iface @
             [ccid_endpoint L 0x83 RunCCIDTx, ccid_endpoint L 0x03 RunCCIDRx]\<rparr>)"

text \<open>Without a configuration the index expression at the end panics.\<close>

definition ConfigureCCID :: "('x) usblib_scheme \<Rightarrow> usbdev \<Rightarrow> usbdev option" where
  "ConfigureCCID L d =
     (let (i, d1) = add_string L ''Smart Card Control'' d
      in if configurationIndex < length (ud_Configurations d1)
         then Some (d1\<lparr>ud_Configurations := (ud_Configurations d1)
                [configurationIndex := AddInterface L (ccid_interface L i)
                   (ud_Configurations d1 ! configurationIndex)]\<rparr>)
         else None)"

section \<open>What the driver is relied on for\<close>

text \<open>
  Adding a configuration or an interface appends it; the defaults of an interface have no endpoints;
  the two endpoints of an interface are indexed by direction, OUT and then IN.
\<close>

definition usb_ok :: "('x) usblib_scheme \<Rightarrow> bool" where
  "usb_ok L \<longleftrightarrow>
     (\<forall>cf d. ud_Configurations (AddConfiguration L cf d) = ud_Configurations d @ [cf]) \<and>
     (\<forall>i cf. cf_Interfaces (AddInterface L i cf) = cf_Interfaces cf @ [i]) \<and>
     Endpoints (InterfaceDefaults L) = [] \<and> cf_Interfaces (ConfigurationDefaults L) = [] \<and>
     usb_OUT L = 0 \<and> usb_IN L = 1"

lemma add_string_frame [simp]:
  assumes "add_string L s d = (i, d')"
  shows "ud_Configurations d' = ud_Configurations d" and "ud_Qualifier d' = ud_Qualifier d"
  using assms by (auto simp: add_string_def split: prod.splits)

text \<open>The interfaces of the first configuration, the one the firmware uses.\<close>

definition interfaces :: "usbdev \<Rightarrow> InterfaceDescriptor list" where
  "interfaces d = (case ud_Configurations d of [] \<Rightarrow> [] | cf # _ \<Rightarrow> cf_Interfaces cf)"

definition addresses :: "usbdev \<Rightarrow> byte list" where
  "addresses d = concat (map (map EndpointAddress \<circ> Endpoints) (interfaces d))"

lemma ConfigureDevice_configurations:
  assumes "usb_ok L"
  shows "ud_Configurations (ConfigureDevice L serial d) = ud_Configurations d @ [ConfigurationDefaults L]"
  using assms by (simp add: ConfigureDevice_def Let_def usb_ok_def split: prod.split)

lemma ConfigureCCID_interfaces:
  assumes "usb_ok L" and "ud_Configurations d \<noteq> []"
  shows "\<exists>d' i. ConfigureCCID L d = Some d' \<and> interfaces d' = interfaces d @ [ccid_interface L i] \<and>
    ud_Configurations d' \<noteq> []"
proof -
  obtain i d1 where d1: "add_string L ''Smart Card Control'' d = (i, d1)"
    by (metis surj_pair)
  moreover obtain cf cfs where "ud_Configurations d = cf # cfs"
    using assms(2) by (cases "ud_Configurations d") auto
  ultimately show ?thesis
    using assms by (auto simp: ConfigureCCID_def interfaces_def usb_ok_def)
qed

lemma ccid_interface_endpoints:
  assumes "usb_ok L"
  shows "Endpoints (ccid_interface L i) = [ccid_endpoint L 0x83 RunCCIDTx, ccid_endpoint L 0x03 RunCCIDRx]"
  using assms by (simp add: ccid_interface_def Let_def usb_ok_def)

lemma ccid_interface_NumEndpoints: "NumEndpoints (ccid_interface L i) = 2"
  by (simp add: ccid_interface_def Let_def)

lemma ConfigureDevice_qualifier:
  "map_option dq_NumConfigurations (ud_Qualifier (ConfigureDevice L serial d)) =
     Some (of_nat (length (ud_Configurations (ConfigureDevice L serial d))))"
  by (simp add: ConfigureDevice_def Let_def split: prod.split)

lemma ConfigureCCID_qualifier:
  assumes "ConfigureCCID L d = Some d'"
  shows "ud_Qualifier d' = ud_Qualifier d" and "length (ud_Configurations d') = length (ud_Configurations d)"
proof -
  obtain i d1 where d1: "add_string L ''Smart Card Control'' d = (i, d1)"
    by (metis surj_pair)
  then show "ud_Qualifier d' = ud_Qualifier d" "length (ud_Configurations d') = length (ud_Configurations d)"
    using assms by (auto simp: ConfigureCCID_def split: if_splits)
qed

section \<open>Properties\<close>

text \<open>
  Configuring the device and then the smart card leaves one configuration whose single interface
  announces exactly the endpoints it has: bulk endpoint 3, in whose IN direction the response
  function runs and in whose OUT direction the request function does. (The comments of these
  functions call it endpoint 1.) The qualifier counts the configurations.
\<close>

theorem ConfigureCCID_wires:
  assumes "usb_ok L" and "ud_Configurations d = []"
  shows "\<exists>d' iface. ConfigureCCID L (ConfigureDevice L serial d) = Some d' \<and> interfaces d' = [iface] \<and>
    length (Endpoints iface) = unat (NumEndpoints iface) \<and>
    map (\<lambda>e. (EndpointAddress e, Attributes e, EpFunction e)) (Endpoints iface) =
      [(0x83, 2, RunCCIDTx), (0x03, 2, RunCCIDRx)] \<and>
    map_option dq_NumConfigurations (ud_Qualifier d') = Some (of_nat (length (ud_Configurations d')))"
proof -
  let ?d = "ConfigureDevice L serial d"
  have conf: "ud_Configurations ?d = [ConfigurationDefaults L]"
    using ConfigureDevice_configurations [OF assms(1)] assms(2) by simp
  then obtain d' i where d': "ConfigureCCID L ?d = Some d'" "interfaces d' = interfaces ?d @ [ccid_interface L i]"
    using ConfigureCCID_interfaces [OF assms(1), of ?d] by auto
  have "interfaces ?d = []"
    using conf assms(1) by (simp add: interfaces_def usb_ok_def)
  moreover have "map_option dq_NumConfigurations (ud_Qualifier d') = Some (of_nat (length (ud_Configurations d')))"
    unfolding ConfigureCCID_qualifier [OF d'(1)] by (rule ConfigureDevice_qualifier)
  moreover have "map (\<lambda>e. (EndpointAddress e, Attributes e, EpFunction e)) (Endpoints (ccid_interface L i)) =
      [(0x83, 2, RunCCIDTx), (0x03, 2, RunCCIDRx)]"
    unfolding ccid_interface_endpoints [OF assms(1)] by (simp add: ccid_endpoint_def)
  moreover have "length (Endpoints (ccid_interface L i)) = unat (NumEndpoints (ccid_interface L i))"
    unfolding ccid_interface_endpoints [OF assms(1)] ccid_interface_NumEndpoints by simp
  ultimately show ?thesis
    using d' by (intro exI [of _ d'] exI [of _ "ccid_interface L i"]) simp
qed

definition endpoint_zero :: EndpointDescriptor where
  "endpoint_zero = \<lparr>EndpointAddress = 0, Attributes = 0, MaxPacketSize = 0, EpFunction = NoFunction\<rparr>"

definition sample_usb :: usblib where
  "sample_usb = rpclib.extend sample_rpc
     \<lparr>SetLanguageCodes = (\<lambda>codes strs. strs),
      AddString = (\<lambda>s strs. ((of_nat (length strs), None), strs @ [str_bytes s])),
      DeviceDefaults = \<lparr>DeviceClass = 0, DeviceSubClass = 0, DeviceProtocol = 0, VendorId = 0,
        ProductId = 0, bcdDevice = 0, iManufacturer = 0, iProduct = 0, iSerialNumber = 0,
        dd_NumConfigurations = 0\<rparr>,
      ConfigurationDefaults = \<lparr>cf_Interfaces = [], cf_driver = []\<rparr>,
      QualifierDefaults = \<lparr>dq_NumConfigurations = 0, dq_driver = []\<rparr>,
      InterfaceDefaults = \<lparr>NumEndpoints = 0, InterfaceClass = 0, InterfaceString = 0,
        ClassDescriptors = [], Endpoints = []\<rparr>,
      CCIDDefaults = \<lparr>VoltageSupport = 0, Protocols = 0, DefaultClock = 0, MaximumClock = 0,
        DataRate = 0, MaxDataRate = 0, MaxIFSD = 0, Features = 0, MaxCCIDMessageLength = 0,
        ClassGetResponse = 0, ClassEnvelope = 0, MaxCCIDBusySlots = 0, cd_driver = []\<rparr>,
      EndpointDefaults = endpoint_zero,
      CCIDBytes = (\<lambda>cd. []),
      AddConfiguration = (\<lambda>cf d. d\<lparr>ud_Configurations := ud_Configurations d @ [cf]\<rparr>),
      AddInterface = (\<lambda>i cf. cf\<lparr>cf_Interfaces := cf_Interfaces cf @ [i]\<rparr>),
      DTD_PAGES = 5, DTD_PAGE_SIZE = 4096, SMARTCARD_DEVICE_CLASS = 0x0b,
      usb_OUT = 0, usb_IN = 1\<rparr>"

definition blank_device :: usbdev where
  "blank_device = \<lparr>ud_Descriptor = None, ud_Qualifier = None, ud_Configurations = [], ud_strings = []\<rparr>"

lemma sample_usb_ok: "usb_ok sample_usb"
  by (simp add: usb_ok_def sample_usb_def rpclib.defs)

theorem ConfigureCCID_wires_witness:
  "\<exists>d' iface. ConfigureCCID sample_usb (ConfigureDevice sample_usb ''AABBCCDD'' blank_device) = Some d' \<and>
     interfaces d' = [iface] \<and> map EndpointAddress (Endpoints iface) = [0x83, 0x03]"
proof -
  obtain d' iface where
    "ConfigureCCID sample_usb (ConfigureDevice sample_usb ''AABBCCDD'' blank_device) = Some d'"
    "interfaces d' = [iface]"
    and eps: "map (\<lambda>e. (EndpointAddress e, Attributes e, EpFunction e)) (Endpoints iface) =
      [(0x83, 2, RunCCIDTx), (0x03, 2, RunCCIDRx)]"
    using ConfigureCCID_wires [OF sample_usb_ok, of blank_device "''AABBCCDD''"]
    by (auto simp: blank_device_def)
  moreover have "map EndpointAddress (Endpoints iface) = [0x83, 0x03]"
    using arg_cong [OF eps, of "map fst"] by (simp add: comp_def)
  ultimately show ?thesis
    by (intro exI conjI)
qed

end
