(* ===== verification/U2f.thy ===== *)
theory U2f
  imports UsbDevice
begin

text \<open>
  The U2F authenticator, \<^verbatim>\<open>src/internal/u2f\<close>: the monotonic counter (an ATECC608A secure
  element or a word of an eMMC block), user presence, and the token around them. The board
  support, the secure element, the eMMC driver and the \<^verbatim>\<open>fidati\<close> packages are parameters
  (\<open>u2flib\<close>); the eMMC block and the secure element's state are the mutable hardware
  state \<open>u2fhw\<close>. A channel is a number, \<^term>\<open>None\<close> the nil channel.
\<close>

section \<open>Parameters and state\<close>

datatype board = BETA | GAMMA | LAN | OtherBoard

record u2flib = usblib +
  Board :: board
  AteccInfo :: "bytes \<times> goerr option"
  AteccExecuteCmd :: "nat \<Rightarrow> byte \<Rightarrow> bytes \<Rightarrow> bytes \<Rightarrow> bytes \<Rightarrow> bool \<Rightarrow> (bytes \<times> goerr option) \<times> nat"
  MmcDetect :: "goerr option"
  MmcCID :: bytes
  MmcReadErr :: "goerr option"
  MmcWriteErr :: "goerr option"
  Pbkdf2 :: "bytes \<Rightarrow> bytes \<Rightarrow> bytes \<times> goerr option"
  Sha1 :: "bytes \<Rightarrow> bytes"
  NewU2FToken :: "bytes \<Rightarrow> bytes \<Rightarrow> goerr option"
  NewU2FHandler :: "goerr option"
  ConfigureU2FUSB :: "usbdev \<Rightarrow> goerr option \<times> usbdev"
  ParseAttestation :: "bytes \<Rightarrow> bytes option \<times> goerr option"

record u2fhw =
  hw_atecc :: nat
  hw_block :: bytes

type_synonym chan = nat

datatype counter_kind = cntATECC | cntEMMC

record Counter =
  cnt_kind :: counter_kind
  cnt_uid :: bytes
  cnt_presence :: "chan option"

record Keyring =
  kr_MasterKey :: bytes
  kr_Counter :: "Counter option"

record Token =
  t_SNVS :: bool
  t_PublicKey :: bytes
  t_PrivateKey :: bytes
  t_Presence :: "chan option"
  t_keyring :: "Keyring option"
  t_counter :: "Counter option"
  t_initialized :: bool

definition DiversifierU2F :: bytes where
  "DiversifierU2F = str_bytes ''GoKeySNVSU2F    ''"

section \<open>counter.go\<close>

definition Counter_zero :: Counter where
  "Counter_zero = \<lparr>cnt_kind = cntATECC, cnt_uid = [], cnt_presence = None\<rparr>"

text \<open>On a board it does not know, \<^verbatim>\<open>Init\<close> builds the error and drops it.\<close>

definition Counter_Init :: "('x) u2flib_scheme \<Rightarrow> chan option \<Rightarrow> Counter \<Rightarrow> goerr option \<times> Counter" where
  "Counter_Init L presence c =
     (case Board L of
        BETA \<Rightarrow>
          (case AteccInfo L of
             (_, Some err) \<Rightarrow> (Some err, c)
           | (info, None) \<Rightarrow>
               (None, c\<lparr>cnt_uid := info, cnt_kind := cntATECC, cnt_presence := presence\<rparr>))
      | OtherBoard \<Rightarrow> (None, c\<lparr>cnt_presence := presence\<rparr>)
      | _ \<Rightarrow>
          (case MmcDetect L of
             Some err \<Rightarrow> (Some err, c)
           | None \<Rightarrow>
               (None, c\<lparr>cnt_uid := MmcCID L, cnt_kind := cntEMMC, cnt_presence := presence\<rparr>)))"

definition Serial :: "Counter \<Rightarrow> bytes" where
  "Serial c = cnt_uid c"

abbreviation (input) mode_read :: byte where "mode_read \<equiv> 0"
abbreviation (input) mode_increment :: byte where "mode_increment \<equiv> 1"
abbreviation (input) keyID :: byte where "keyID \<equiv> 0x01"
abbreviation (input) counter_opcode :: byte where "counter_opcode \<equiv> 0x24"
abbreviation (input) counterOffset :: nat where "counterOffset \<equiv> 508"

text \<open>A response or block that is too short for the counter panics.\<close>

definition counterCmd ::
    "('x) u2flib_scheme \<Rightarrow> byte \<Rightarrow> Counter \<Rightarrow> u2fhw \<Rightarrow> ((u32 \<times> goerr option) \<times> u2fhw) option" where
  "counterCmd L mode c hw =
     (case cnt_kind c of
        cntATECC \<Rightarrow>
          let ((res, err), s) = AteccExecuteCmd L (hw_atecc hw) counter_opcode [mode] [keyID, 0x00] [] True;
              hw' = hw\<lparr>hw_atecc := s\<rparr>
          in (case err of
                Some e \<Rightarrow> Some ((0, Some e), hw')
              | None \<Rightarrow> do { cnt \<leftarrow> le_uint32 res; Some ((cnt, None), hw') })
      | cntEMMC \<Rightarrow>
          (case MmcReadErr L of
             Some e \<Rightarrow> Some ((0, Some e), hw)
           | None \<Rightarrow>
               do {
                 tail \<leftarrow> slice_from (hw_block hw) counterOffset;
                 cnt \<leftarrow> le_uint32 tail;
                 if mode = mode_read then Some ((cnt, None), hw)
                 else do {
                   buf \<leftarrow> copy_at (hw_block hw) counterOffset (le_put32 (cnt + 1));
                   Some (case MmcWriteErr L of
                           Some e \<Rightarrow> ((cnt + 1, Some e), hw)
                         | None \<Rightarrow> ((cnt + 1, None), hw\<lparr>hw_block := buf\<rparr>))
                 }
               }))"

definition Increment ::
    "('x) u2flib_scheme \<Rightarrow> Counter \<Rightarrow> u2fhw \<Rightarrow> ((u32 \<times> goerr option) \<times> u2fhw) option" where
  "Increment L c hw = counterCmd L mode_increment c hw"

definition Read ::
    "('x) u2flib_scheme \<Rightarrow> Counter \<Rightarrow> u2fhw \<Rightarrow> ((u32 \<times> goerr option) \<times> u2fhw) option" where
  "Read L c hw = counterCmd L mode_read c hw"

text \<open>
  \<^verbatim>\<open>UserPresence\<close>: \<open>confirmed\<close> is whether something arrives on the counter's channel before
  the time-out.
\<close>

definition UserPresence :: "Counter \<Rightarrow> (chan \<Rightarrow> bool) \<Rightarrow> bool" where
  "UserPresence c confirmed = (case cnt_presence c of None \<Rightarrow> True | Some ch \<Rightarrow> confirmed ch)"

text \<open>
  \<^verbatim>\<open>blink\<close>, the goroutine that runs beside it: what the white LED is set to in the \<open>n\<close> turns
  before \<^verbatim>\<open>done\<close> arrives, \<open>on\<close> being the variable of that name, and at the end.
\<close>

fun blink :: "nat \<Rightarrow> bool \<Rightarrow> bool list" where
  "blink 0 on = [False]"
| "blink (Suc n) on = (\<not> on) # blink n (\<not> on)"

lemma blink_ends_off: "blink n on \<noteq> [] \<and> last (blink n on) = False"
  by (induction n on rule: blink.induct) auto

section \<open>token.go\<close>

text \<open>The last interface gets endpoint 4, away from the Ethernet interface; a missing one panics.\<close>

definition set_address :: "nat \<Rightarrow> byte \<Rightarrow> InterfaceDescriptor \<Rightarrow> InterfaceDescriptor option" where
  "set_address i addr iface =
     (if i < length (Endpoints iface)
      then Some (iface\<lparr>Endpoints := (Endpoints iface)[i := (Endpoints iface ! i)\<lparr>EndpointAddress := addr\<rparr>]\<rparr>)
      else None)"

definition u2f_addresses :: "('x) usblib_scheme \<Rightarrow> usbdev \<Rightarrow> usbdev option" where
  "u2f_addresses L d =
     (case ud_Configurations d of
        [] \<Rightarrow> None
      | cf # cfs \<Rightarrow>
          if cf_Interfaces cf = [] then None
          else do {
            i1 \<leftarrow> set_address (usb_OUT L) 0x04 (last (cf_Interfaces cf));
            i2 \<leftarrow> set_address (usb_IN L) 0x84 i1;
            Some (d\<lparr>ud_Configurations := cf\<lparr>cf_Interfaces := butlast (cf_Interfaces cf) @ [i2]\<rparr> # cfs\<rparr>)
          })"

definition Configure ::
    "('x) u2flib_scheme \<Rightarrow> Token \<Rightarrow> usbdev \<Rightarrow> (goerr option \<times> Token \<times> usbdev) option" where
  "Configure L t d =
     do {
       let t1 = t\<lparr>t_keyring := Some \<lparr>kr_MasterKey = [], kr_Counter = None\<rparr>\<rparr>;
       (priv, err) \<leftarrow>
         (if t_SNVS t1 then snvs_Decrypt L (t_PrivateKey t1) DiversifierU2F
          else Some (t_PrivateKey t1, None));
       let t2 = t1\<lparr>t_PrivateKey := priv\<rparr>;
       (case err of
          Some e \<Rightarrow> Some (Some (wrap_err ''U2F key decryption failed'' e), t2, d)
        | None \<Rightarrow>
            (case NewU2FToken L (t_PublicKey t2) (t_PrivateKey t2) of
               Some e \<Rightarrow> Some (Some e, t2, d)
             | None \<Rightarrow>
                 (case NewU2FHandler L of
                    Some e \<Rightarrow> Some (Some e, t2, d)
                  | None \<Rightarrow>
                      if ud_Configurations d = [] then None
                      else
                        (case ConfigureU2FUSB L d of
                           (Some e, d') \<Rightarrow> Some (Some e, t2, d')
                         | (None, d') \<Rightarrow> map_option (\<lambda>d2. (None, t2, d2)) (u2f_addresses L d')))))
     }"

text \<open>\<^verbatim>\<open>Status\<close> reads the counter, and dereferences a certificate that failed to parse.\<close>

definition counter_text :: "('x) u2flib_scheme \<Rightarrow> Token \<Rightarrow> u2fhw \<Rightarrow> (string \<times> u2fhw) option" where
  "counter_text L t hw =
     (if t_initialized t then
        do {
          c \<leftarrow> t_counter t;
          ((val, err), hw') \<leftarrow> Read L c hw;
          Some (case err of Some e \<Rightarrow> error_text e | None \<Rightarrow> fmt_d (unat val), hw')
        }
      else Some (''N/A'', hw))"

definition Token_Status :: "('x) u2flib_scheme \<Rightarrow> Token \<Rightarrow> u2fhw \<Rightarrow> (string \<times> u2fhw) option" where
  "Token_Status L t hw =
     do {
       (s, hw') \<leftarrow> counter_text L t hw;
       cert \<leftarrow>
         (if length (t_PublicKey t) \<noteq> 0 then
            do {
              raw \<leftarrow> fst (ParseAttestation L (t_PublicKey t));
              Some (fingerprint_line (Sha1 L raw))
            }
          else Some (''missing'' @ newline));
       Some (''------------------------------------------------------------ U2F token ----'' @ newline @
         ''Initialized ............: '' @ fmt_bool (t_initialized t) @ newline @
         ''Secure storage .........: '' @ fmt_bool (t_SNVS t) @ newline @
         ''User presence test .....: '' @ fmt_bool (t_Presence t \<noteq> None) @ newline @
         ''Counter ................: '' @ s @ newline @
         ''Attestation certificate.: '' @ cert, hw')
     }"

definition master_key :: "('x) u2flib_scheme \<Rightarrow> bool \<Rightarrow> Counter \<Rightarrow> bytes \<times> goerr option" where
  "master_key L snvs c =
     (if snvs then DeriveKey L DiversifierU2F (replicate 16 0) (-1)
      else Pbkdf2 L (Serial c) (UniqueID L))"

definition Token_Init ::
    "('x) u2flib_scheme \<Rightarrow> Token \<Rightarrow> u2fhw \<Rightarrow> (goerr option \<times> Token \<times> u2fhw) option" where
  "Token_Init L t hw =
     (case t_keyring t of
        None \<Rightarrow> Some (Some (GoErr ''U2F token initialization failed, missing configuration''), t, hw)
      | Some kr \<Rightarrow>
          let (err, c) = Counter_Init L (t_Presence t) Counter_zero
          in if err \<noteq> None then Some (err, t, hw)
             else
               let (mk, err) = master_key L (t_SNVS t) c
               in if err \<noteq> None then Some (err, t, hw)
                  else
                    let t' = t\<lparr>t_keyring := Some (kr\<lparr>kr_MasterKey := mk, kr_Counter := Some c\<rparr>),
                          t_counter := Some c, t_initialized := True\<rparr>
                    in map_option (\<lambda>(_, hw'). (None, t', hw')) (Token_Status L t' hw))"

definition Token_Initialized :: "Token \<Rightarrow> bool" where
  "Token_Initialized t = t_initialized t"

section \<open>The contract of a monotonic counter\<close>

text \<open>Repeated increments, with the values they return; it stops at the first failure.\<close>

fun increments :: "('s \<Rightarrow> (u32 \<times> 's) option) \<Rightarrow> nat \<Rightarrow> 's \<Rightarrow> (u32 list \<times> 's) option" where
  "increments inc 0 s = Some ([], s)"
| "increments inc (Suc n) s =
     do { (v, s1) \<leftarrow> inc s; (vs, s2) \<leftarrow> increments inc n s1; Some (v # vs, s2) }"

locale monotonic_counter =
  fixes usable :: "'s \<Rightarrow> bool"
    and current :: "'s \<Rightarrow> u32"
    and inc :: "'s \<Rightarrow> (u32 \<times> 's) option"
  assumes inc_next: "usable s \<Longrightarrow> \<exists>s'. inc s = Some (current s + 1, s') \<and> usable s' \<and> current s' = current s + 1"
begin

lemma increments_values:
  assumes "usable s"
  shows "\<exists>s'. increments inc n s = Some (map (\<lambda>i. current s + of_nat (Suc i)) [0..<n], s') \<and>
    usable s' \<and> current s' = current s + of_nat n"
  using assms
proof (induction n arbitrary: s)
  case (Suc n)
  from inc_next [OF Suc.prems] obtain s1
    where s1: "inc s = Some (current s + 1, s1)" "usable s1" "current s1 = current s + 1"
    by blast
  from Suc.IH [OF s1(2)] obtain s' where
    "increments inc n s1 = Some (map (\<lambda>i. current s1 + of_nat (Suc i)) [0..<n], s')"
    "usable s'" "current s' = current s1 + of_nat n"
    by blast
  moreover have "map (\<lambda>i. current s + of_nat (Suc i)) [0..<Suc n] =
      (current s + 1) # map (\<lambda>i. current s1 + of_nat (Suc i)) [0..<n]"
    by (simp add: map_upt_Suc s1(3) add.assoc del: upt_Suc)
  ultimately show ?case
    using s1 by (simp add: add.assoc del: upt_Suc)
qed simp

lemma increments_increase:
  assumes "usable s" and "unat (current s) + n < 2 ^ 32"
  shows "\<exists>vs s'. increments inc n s = Some (vs, s') \<and> length vs = n \<and>
    sorted_wrt (<) (current s # vs)"
proof -
  have val: "unat (current s + of_nat k) = unat (current s) + k" if "k \<le> n" for k
    using assms(2) that by (simp add: unat_word_ariths unat_of_nat)
  have "sorted_wrt (<) (map (\<lambda>i. current s + of_nat i) [0..<Suc n])"
    by (auto simp: sorted_wrt_iff_nth_less word_less_nat_alt val simp del: upt_Suc)
  moreover have "map (\<lambda>i. current s + of_nat i) [0..<Suc n] =
      current s # map (\<lambda>i. current s + of_nat (Suc i)) [0..<n]"
    by (simp add: map_upt_Suc del: upt_Suc)
  ultimately show ?thesis
    using increments_values [OF assms(1), of n] by auto
qed

end

section \<open>The eMMC counter provides it\<close>

definition emmc_usable :: "('x) u2flib_scheme \<times> Counter \<times> u2fhw \<Rightarrow> bool" where
  "emmc_usable = (\<lambda>(L, c, hw). cnt_kind c = cntEMMC \<and> MmcReadErr L = None \<and> MmcWriteErr L = None \<and>
     512 \<le> length (hw_block hw))"

definition emmc_current :: "('x) u2flib_scheme \<times> Counter \<times> u2fhw \<Rightarrow> u32" where
  "emmc_current = (\<lambda>(L, c, hw). case Read L c hw of Some ((v, None), _) \<Rightarrow> v | _ \<Rightarrow> 0)"

definition emmc_inc ::
    "('x) u2flib_scheme \<times> Counter \<times> u2fhw \<Rightarrow> (u32 \<times> ('x) u2flib_scheme \<times> Counter \<times> u2fhw) option" where
  "emmc_inc = (\<lambda>(L, c, hw).
     case Increment L c hw of Some ((v, None), hw') \<Rightarrow> Some (v, (L, c, hw')) | _ \<Rightarrow> None)"

lemma emmc_word:
  assumes "512 \<le> length block"
  obtains cnt where "le_uint32 (drop 508 block) = Some cnt"
proof -
  have "4 \<le> length (drop 508 block)"
    using assms by simp
  then show ?thesis
    using le32.dec_long that by blast
qed

lemma emmc_Read:
  assumes "emmc_usable (L, c, hw)" and "le_uint32 (drop 508 (hw_block hw)) = Some cnt"
  shows "Read L c hw = Some ((cnt, None), hw)"
  using assms by (simp add: emmc_usable_def Read_def counterCmd_def slice_from_def)

text \<open>The block after an increment: the counter's four bytes replaced, everything else as it was.\<close>

definition counter_block :: "u32 \<Rightarrow> bytes \<Rightarrow> bytes" where
  "counter_block v block = take 508 block @ le_put32 v @ drop 512 block"

lemma emmc_Increment:
  assumes "emmc_usable (L, c, hw)" and "le_uint32 (drop 508 (hw_block hw)) = Some cnt"
  shows "Increment L c hw =
    Some ((cnt + 1, None), hw\<lparr>hw_block := counter_block (cnt + 1) (hw_block hw)\<rparr>)"
proof -
  have "take (length (hw_block hw) - 508) (le_put32 (cnt + 1)) = le_put32 (cnt + 1)"
    using assms(1) by (intro take_all) (auto simp: emmc_usable_def)
  then show ?thesis
    using assms by (simp add: emmc_usable_def Increment_def counterCmd_def slice_from_def copy_at_def
        copy_into_def counter_block_def)
qed

lemma counter_block_word:
  assumes "512 \<le> length block"
  shows "le_uint32 (drop 508 (counter_block v block)) = Some v" and "length (counter_block v block) = length block"
  using assms by (simp_all add: counter_block_def le32.dec_enc)

interpretation emmc: monotonic_counter emmc_usable emmc_current emmc_inc
proof
  fix s :: "('x) u2flib_scheme \<times> Counter \<times> u2fhw"
  assume usable: "emmc_usable s"
  obtain L c hw where s: "s = (L, c, hw)"
    by (cases s)
  have len: "512 \<le> length (hw_block hw)"
    using usable by (simp add: s emmc_usable_def)
  then obtain cnt where cnt: "le_uint32 (drop 508 (hw_block hw)) = Some cnt"
    by (rule emmc_word)
  let ?hw = "hw\<lparr>hw_block := counter_block (cnt + 1) (hw_block hw)\<rparr>"
  have usable': "emmc_usable (L, c, ?hw)"
    using usable len by (simp add: s emmc_usable_def counter_block_word)
  have "emmc_current (L, c, hw) = cnt" "emmc_current (L, c, ?hw) = cnt + 1"
    using emmc_Read [OF usable [unfolded s] cnt] emmc_Read [OF usable'] len
    by (simp_all add: emmc_current_def counter_block_word)
  moreover have "emmc_inc s = Some (cnt + 1, (L, c, ?hw))"
    using emmc_Increment [OF usable [unfolded s] cnt] by (simp add: s emmc_inc_def)
  ultimately show "\<exists>s'. emmc_inc s = Some (emmc_current s + 1, s') \<and> emmc_usable s' \<and>
      emmc_current s' = emmc_current s + 1"
    using usable' by (simp add: s)
qed

section \<open>Properties\<close>

text \<open>
  C29. The eMMC counter is monotonic: any number of increments, short of exhausting 32 bits,
  succeeds and returns strictly increasing values, all above the value read before.
\<close>

theorem emmc_counter_increases:
  assumes "cnt_kind c = cntEMMC" and "MmcReadErr L = None" and "MmcWriteErr L = None"
    and "512 \<le> length (hw_block hw)" and "Read L c hw = Some ((v, None), hw)"
    and "unat v + n < 2 ^ 32"
  shows "\<exists>vs s'. increments emmc_inc n (L, c, hw) = Some (vs, s') \<and> length vs = n \<and>
    sorted_wrt (<) (v # vs)"
  using emmc.increments_increase [of "(L, c, hw)" n] assms
  by (simp add: emmc_usable_def emmc_current_def)

text \<open>
  An increment changes nothing on the eMMC but the counter word, and the next read returns
  the value it returned.
\<close>

theorem emmc_increment_read:
  assumes "cnt_kind c = cntEMMC" and "MmcReadErr L = None" and "MmcWriteErr L = None"
    and "512 \<le> length (hw_block hw)"
  shows "\<exists>v hw'. Increment L c hw = Some ((v, None), hw') \<and> Read L c hw' = Some ((v, None), hw') \<and>
    length (hw_block hw') = length (hw_block hw) \<and>
    take 508 (hw_block hw') = take 508 (hw_block hw) \<and>
    drop 512 (hw_block hw') = drop 512 (hw_block hw) \<and> hw_atecc hw' = hw_atecc hw"
proof -
  have usable: "emmc_usable (L, c, hw)"
    using assms by (simp add: emmc_usable_def)
  obtain cnt where cnt: "le_uint32 (drop 508 (hw_block hw)) = Some cnt"
    using assms(4) by (rule emmc_word)
  let ?hw = "hw\<lparr>hw_block := counter_block (cnt + 1) (hw_block hw)\<rparr>"
  have "emmc_usable (L, c, ?hw)"
    using assms by (simp add: emmc_usable_def counter_block_word)
  then have "Read L c ?hw = Some ((cnt + 1, None), ?hw)"
    using assms(4) by (intro emmc_Read) (simp_all add: counter_block_word)
  then show ?thesis
    using emmc_Increment [OF usable cnt] assms(4) by (simp add: counter_block_def)
qed

text \<open>
  What a successful initialization of the token guarantees: the counter handed to the
  keyring is the token's own and enforces the presence channel configured at that moment, and the
  master key is the one derived for the counter. A failed one leaves the token as it was.
\<close>

theorem Token_Init_spec:
  assumes "Token_Init L t hw = Some (err, t', hw')"
  shows "case err of
      None \<Rightarrow> \<exists>kr c mk. t_keyring t' = Some kr \<and> t_counter t' = Some c \<and> kr_Counter kr = Some c \<and>
        cnt_presence c = t_Presence t \<and> master_key L (t_SNVS t) c = (mk, None) \<and>
        kr_MasterKey kr = mk \<and> t_initialized t' \<and> t_keyring t \<noteq> None
    | Some e \<Rightarrow> t' = t"
  using assms
  by (auto simp: Token_Init_def Counter_Init_def Let_def
      split: option.splits prod.splits if_splits board.splits)

text \<open>
  On a board it does not recognize, the token initializes without error, although nothing
  can count: its serial number is empty, so without secure boot the master key is derived from
  the SoC identifier alone.
\<close>

theorem Token_Init_unknown_board:
  assumes "Board L = OtherBoard" and "\<not> t_SNVS t" and "t_keyring t \<noteq> None"
    and "Pbkdf2 L [] (UniqueID L) = (mk, None)"
    and "AteccExecuteCmd L (hw_atecc hw) counter_opcode [mode_read] [keyID, 0x00] [] True = ((w, Some e), s)" and "t_PublicKey t = []"
  shows "\<exists>t' kr. Token_Init L t hw = Some (None, t', hw\<lparr>hw_atecc := s\<rparr>) \<and> t_initialized t' \<and>
    t_keyring t' = Some kr \<and> kr_MasterKey kr = mk"
  using assms
  by (auto simp: Token_Init_def Counter_Init_def Let_def master_key_def Serial_def Counter_zero_def
      Token_Status_def counter_text_def Read_def counterCmd_def)

section \<open>Concrete runs\<close>

definition sample_fidati :: "usbdev \<Rightarrow> goerr option \<times> usbdev" where
  "sample_fidati d =
     (None, d\<lparr>ud_Configurations := map (\<lambda>cf. cf\<lparr>cf_Interfaces := cf_Interfaces cf @
        [\<lparr>NumEndpoints = 2, InterfaceClass = 3, InterfaceString = 0, ClassDescriptors = [],
          Endpoints = replicate 2 (endpoint_zero\<lparr>EpFunction := OtherFunction 1\<rparr>)\<rparr>]\<rparr>) (ud_Configurations d)\<rparr>)"

definition sample_u2f :: "board \<Rightarrow> u2flib" where
  "sample_u2f b = usblib.extend sample_usb
     \<lparr>Board = b, AteccInfo = ([7], None), AteccExecuteCmd = (\<lambda>s opcode p1 p2 data crc. (([], Some (GoErr ''no device'')), s)),
      MmcDetect = None, MmcCID = [9], MmcReadErr = None, MmcWriteErr = None,
      Pbkdf2 = (\<lambda>pw salt. (pw @ [5], None)), Sha1 = (\<lambda>x. x), NewU2FToken = (\<lambda>p k. None),
      NewU2FHandler = None, ConfigureU2FUSB = sample_fidati, ParseAttestation = (\<lambda>k. (Some k, None))\<rparr>"

lemma sample_u2f_simps [simp]:
  "Board (sample_u2f b) = b" "MmcReadErr (sample_u2f b) = None" "MmcWriteErr (sample_u2f b) = None"
  "MmcDetect (sample_u2f b) = None" "MmcCID (sample_u2f b) = [9]"
  "Pbkdf2 (sample_u2f b) pw salt = (pw @ [5], None)"
  "AteccExecuteCmd (sample_u2f b) s opcode p1 p2 data crc = (([], Some (GoErr ''no device'')), s)"
  by (simp_all add: sample_u2f_def usblib.defs)

definition sample_counter :: Counter where
  "sample_counter = \<lparr>cnt_kind = cntEMMC, cnt_uid = [9], cnt_presence = Some 4\<rparr>"

definition sample_hw :: u2fhw where
  "sample_hw = \<lparr>hw_atecc = 0, hw_block = replicate 512 0\<rparr>"

definition sample_token :: Token where
  "sample_token = \<lparr>t_SNVS = False, t_PublicKey = [], t_PrivateKey = [], t_Presence = Some 4,
     t_keyring = Some \<lparr>kr_MasterKey = [], kr_Counter = None\<rparr>, t_counter = None, t_initialized = False\<rparr>"

lemma sample_hw_read: "Read (sample_u2f b) sample_counter sample_hw = Some ((0, None), sample_hw)"
  by (simp add: Read_def counterCmd_def sample_counter_def sample_hw_def slice_from_def
      eval_nat_numeral join32_def)

theorem emmc_counter_increases_witness:
  "\<exists>vs s'. increments emmc_inc 5 (sample_u2f GAMMA, sample_counter, sample_hw) = Some (vs, s') \<and>
     length vs = 5 \<and> sorted_wrt (<) (0 # vs)"
  by (rule emmc_counter_increases)
    (simp_all add: sample_hw_read, simp_all add: sample_counter_def sample_hw_def)

theorem emmc_increment_read_witness:
  "\<exists>v hw'. Increment (sample_u2f GAMMA) sample_counter sample_hw = Some ((v, None), hw') \<and>
     Read (sample_u2f GAMMA) sample_counter hw' = Some ((v, None), hw')"
  using emmc_increment_read [of sample_counter "sample_u2f GAMMA" sample_hw]
  by (auto simp: sample_counter_def sample_hw_def)

theorem Token_Init_spec_witness:
  "\<exists>t' hw' c. Token_Init (sample_u2f GAMMA) sample_token sample_hw = Some (None, t', hw') \<and>
     t_counter t' = Some c \<and> cnt_presence c = Some 4"
proof -
  have "Counter_Init (sample_u2f GAMMA) (Some 4) Counter_zero = (None, sample_counter)"
    by (simp add: Counter_Init_def Counter_zero_def sample_counter_def)
  then have "\<exists>t' hw'. Token_Init (sample_u2f GAMMA) sample_token sample_hw = Some (None, t', hw')"
    by (simp add: Token_Init_def sample_token_def master_key_def Token_Status_def counter_text_def
        sample_hw_read)
  then show ?thesis
    using Token_Init_spec [of "sample_u2f GAMMA" sample_token sample_hw None]
    by (fastforce simp: sample_token_def)
qed

theorem Token_Init_unknown_board_witness:
  "\<exists>t' hw'. Token_Init (sample_u2f OtherBoard) sample_token sample_hw = Some (None, t', hw') \<and> t_initialized t'"
  using Token_Init_unknown_board [of "sample_u2f OtherBoard" sample_token "[5]" sample_hw "[]" "GoErr ''no device''" 0]
  by (auto simp: sample_token_def sample_hw_def)

end
