(* ===== verification/Age.thy ===== *)
theory Age
  imports U2f
begin

text \<open>
  The age plugin, \<^verbatim>\<open>src/internal/age/plugin.go\<close>: identities wrapped with the device key
  leave the device as plugin strings and come back through the identity callback. The
  \<^verbatim>\<open>filippo.io/age\<close> packages are parameters (\<open>agelib\<close>): \<open>IdentityV1\<close> is the exit
  code of the state machine that talks over \<open>rw\<close>.
\<close>

record agelib = u2flib +
  GenerateX25519Identity :: "rng \<Rightarrow> ((string \<times> string) \<times> goerr option) \<times> rng"
  EncodeIdentity :: "string \<Rightarrow> bytes \<Rightarrow> string"
  ParseX25519Identity :: "string \<Rightarrow> string option \<times> goerr option"
  PluginNew :: "string \<Rightarrow> goerr option"
  IdentityV1 :: "bytes \<Rightarrow> nat"

record Plugin =
  p_SNVS :: bool
  p_plugin :: bool
  p_initialized :: bool

definition DiversifierAGE :: bytes where
  "DiversifierAGE = str_bytes ''GoKeySNVSAGE    ''"

text \<open>\<^verbatim>\<open>snvs.Encrypt\<close> as the importing packages see it; the stub takes a key instead.\<close>

definition snvs_Encrypt ::
    "('x) devlib_scheme \<Rightarrow> bytes \<Rightarrow> bytes \<Rightarrow> bytes \<Rightarrow> (bytes \<times> goerr option) option" where
  "snvs_Encrypt L input d iv =
     (if Tamago L then Encrypt_imx6 L input d iv else Encrypt_stub L input d iv)"

text \<open>An identity is the pair of its secret and its recipient string.\<close>

definition generate ::
    "('x) agelib_scheme \<Rightarrow> rng \<Rightarrow> ((string \<times> goerr option) \<times> rng) option" where
  "generate L s =
     (let ((ident, err), s1) = GenerateX25519Identity L s
      in if err \<noteq> None then Some (([], err), s1)
         else
           let ((iv, err), s2) = RandRead L s1 aes_BlockSize
           in if err \<noteq> None then Some (([], err), s2)
              else
                do {
                  (output, err) \<leftarrow> snvs_Encrypt L (str_bytes (fst ident)) DiversifierAGE iv;
                  Some (if err \<noteq> None then ([], err)
                        else (''# public key: '' @ snd ident @ newline @ EncodeIdentity L ''GOKEY'' output,
                              None), s2)
                })"

definition plugin_identity :: "('x) agelib_scheme \<Rightarrow> bytes \<Rightarrow> goerr option" where
  "plugin_identity L rw =
     (if IdentityV1 L rw \<noteq> 0 then Some (GoErr (''exit code: '' @ fmt_d (IdentityV1 L rw))) else None)"

text \<open>The two callbacks \<^verbatim>\<open>Init\<close> registers.\<close>

definition handle_recipient :: "bytes \<Rightarrow> string option \<times> goerr option" where
  "handle_recipient data = (None, Some (GoErr ''unsupported''))"

definition handle_identity :: "('x) agelib_scheme \<Rightarrow> bytes \<Rightarrow> (string option \<times> goerr option) option" where
  "handle_identity L data =
     do {
       (s, err) \<leftarrow> snvs_Decrypt L data DiversifierAGE;
       Some (if err \<noteq> None then (None, err) else ParseX25519Identity L (bytes_str s))
     }"

definition Plugin_Init :: "('x) agelib_scheme \<Rightarrow> Plugin \<Rightarrow> goerr option \<times> Plugin" where
  "Plugin_Init L p =
     (case PluginNew L ''gokey'' of
        Some e \<Rightarrow> (Some e, p)
      | None \<Rightarrow> (None, p\<lparr>p_plugin := True, p_initialized := True\<rparr>))"

definition Plugin_Initialized :: "Plugin \<Rightarrow> bool" where
  "Plugin_Initialized p = p_initialized p"

definition Plugin_Handle ::
    "('x) agelib_scheme \<Rightarrow> bytes \<Rightarrow> string \<Rightarrow> Plugin \<Rightarrow> rng \<Rightarrow> (string \<times> rng) option" where
  "Plugin_Handle L rw sm p s =
     (if \<not> p_SNVS p then Some (''SNVS not available'', s)
      else if sm = ''gen'' then
        map_option (\<lambda>((res, err), s'). (case err of Some e \<Rightarrow> error_text e | None \<Rightarrow> res, s')) (generate L s)
      else if sm = ''identity-v1'' then
        Some (case plugin_identity L rw of Some e \<Rightarrow> error_text e | None \<Rightarrow> [], s)
      else Some (''unsupported'', s))"

section \<open>Properties\<close>

lemma bytes_str_bytes [simp]: "bytes_str (str_bytes s) = s"
proof -
  have "unat (of_char c :: byte) = of_char c" for c
  proof -
    have "(of_char c :: byte) = of_nat (of_char c)"
      by (simp add: of_nat_of_char)
    moreover have "of_char c < (256 :: nat)"
      by (rule nat_of_char_less_256)
    ultimately show ?thesis
      by (simp add: unat_of_nat)
  qed
  then show ?thesis
    by (simp add: bytes_str_def str_bytes_def comp_def)
qed

text \<open>
  C30. An age identity survives its trip to the host: what \<^verbatim>\<open>generate\<close> hands out is the
  encoding of a blob from which the identity callback recovers exactly the generated identity.
\<close>

theorem age_identity_roundtrip:
  assumes "cipher_ok L" and "Tamago L" and "DeriveKey L DiversifierAGE kdf_iv (-1) = (key, None)"
    and "NewCipher key = None"
    and "GenerateX25519Identity L s = (((ident, recip), None), s1)" and "16 \<le> length ident"
    and "RandRead L s1 16 = ((iv, None), s2)" and "length iv = 16"
  shows "\<exists>blob. generate L s =
       Some ((''# public key: '' @ recip @ newline @ EncodeIdentity L ''GOKEY'' blob, None), s2) \<and>
     handle_identity L blob = Some (ParseX25519Identity L ident)"
proof -
  let ?m = "str_bytes ident" and ?k = "(L, key)"
  have usable: "ctr_usable ?k"
    using assms(1,4) by (simp add: ctr_usable_def)
  have "length ?m = length ident"
    by (simp add: str_bytes_def)
  then have "Encrypt_imx6 L ?m DiversifierAGE iv = Some (ctr_seal ?k iv ?m, None)"
    using assms by (intro Encrypt_imx6_seal) simp_all
  moreover have "Decrypt_imx6 L (ctr_seal ?k iv ?m) DiversifierAGE = Some (?m, None)"
    using ctr.unseal_seal [OF usable assms(8)] Decrypt_imx6_unseal [OF assms(3)] by blast
  ultimately show ?thesis
    using assms(2,5,7)
    by (intro exI [of _ "ctr_seal ?k iv ?m"])
      (simp add: generate_def snvs_Encrypt_def handle_identity_def snvs_Decrypt_def)
qed

definition sample_age :: agelib where
  "sample_age = u2flib.extend (sample_u2f GAMMA)
     \<lparr>GenerateX25519Identity = (\<lambda>s. (((''AGE-SECRET-KEY-1'', ''age1''), None), s)),
      EncodeIdentity = (\<lambda>name data. name), ParseX25519Identity = (\<lambda>s. (Some s, None)),
      PluginNew = (\<lambda>name. None), IdentityV1 = (\<lambda>rw. 0)\<rparr>"

lemma sample_age_simps [simp]:
  "Tamago sample_age" "DeriveKey sample_age d iv i = (replicate 16 5, None)"
  "GenerateX25519Identity sample_age s = (((''AGE-SECRET-KEY-1'', ''age1''), None), s)"
  "RandRead sample_age s n = ((replicate n (of_nat s), None), Suc s)"
  "ParseX25519Identity sample_age x = (Some x, None)"
  by (simp_all add: sample_age_def u2flib.defs sample_u2f_def usblib.defs sample_usb_def rpclib.defs sample_rpc_def pgplib.defs
      sample_lib_def devlib.defs demo_dev_def cryptolib.defs)

lemma sample_age_cipher: "cipher_ok sample_age"
  using sample_lib_cipher
  by (simp add: sample_age_def u2flib.defs sample_u2f_def usblib.defs sample_usb_def rpclib.defs sample_rpc_def pgplib.defs
      cipher_ok_def)

theorem age_identity_roundtrip_witness:
  "\<exists>res blob s. generate sample_age 0 = Some ((res, None), s) \<and>
     handle_identity sample_age blob = Some (Some ''AGE-SECRET-KEY-1'', None)"
  using age_identity_roundtrip [of sample_age "replicate 16 5" 0 "''AGE-SECRET-KEY-1''" "''age1''" 0
      "replicate 16 0" "Suc 0"]
  by (auto simp: sample_age_cipher)

end
