(* ===== verification/Console.thy ===== *)
theory Console
  imports Age
begin

text \<open>
  The management console, \<^verbatim>\<open>src/internal/usb/ssh.go\<close>: the command interpreter, the terminal
  loop, the requests of an SSH session, client authentication and the choice of the host key,
  with \<^verbatim>\<open>DeviceKey\<close> of \<^verbatim>\<open>src/internal/snvs/snvs.go\<close>. The SSH transport and the
  terminal are parameters or explicit input and output: \<open>co_input\<close> holds the lines that will
  be typed (each with the error \<^verbatim>\<open>ReadLine\<close> would return instead), \<open>co_out\<close> what has
  been written. Private keys and signers are opaque bytes.
\<close>

section \<open>Parameters and state\<close>

record conslib = agelib +
  EscCyan :: string
  EscReset :: string
  BuildInfo :: "string option"
  Hkdf :: "bytes \<Rightarrow> bytes \<Rightarrow> bytes \<times> goerr option"
  KeygenECDSA :: "bytes \<Rightarrow> bytes \<times> goerr option"
  EcdsaGenerateKey :: "rng \<Rightarrow> (bytes \<times> goerr option) \<times> rng"
  ParseRawPrivateKey :: "bytes \<Rightarrow> bytes \<times> goerr option"
  ParseAuthorizedKey :: "bytes \<Rightarrow> bytes \<times> goerr option"
  NewSignerFromKey :: "bytes \<Rightarrow> bytes \<times> goerr option"

record console =
  co_AuthorizedKey :: bytes
  co_PrivateKey :: bytes
  co_card :: card
  co_token :: Token
  co_plugin :: Plugin
  co_hw :: u2fhw
  co_next_chan :: chan
  co_waiting :: "chan option"
  co_input :: "(string \<times> goerr option) list"
  co_out :: string
  co_reset :: bool

definition DiversifierSSH :: bytes where
  "DiversifierSSH = str_bytes ''GoKeySNVSOpenSSH''"

definition term_write :: "string \<Rightarrow> console \<Rightarrow> console" where
  "term_write s con = con\<lparr>co_out := co_out con @ s\<rparr>"

text \<open>\<^verbatim>\<open>ReadLine\<close> and \<^verbatim>\<open>ReadPassword\<close> take the next line; without one the channel is closed.\<close>

definition term_read :: "console \<Rightarrow> (string \<times> goerr option) \<times> console" where
  "term_read con =
     (case co_input con of
        [] \<Rightarrow> (([], Some EOF), con)
      | line # rest \<Rightarrow> (line, con\<lparr>co_input := rest\<rparr>))"

definition help_text :: string where
  "help_text = concat (map (\<lambda>l. l @ newline)
     [[],
      ''  help                          # this help'',
      ''  exit, quit                    # close session'',
      ''  rand                          # gather 32 bytes from TRNG via crypto/rand'',
      ''  reboot                        # restart'',
      ''  status                        # display smartcard/token status'',
      ''  build                         # display build information'',
      [], [],
      ''  init                          # initialize OpenPGP smartcard'',
      ''  lock   (all|sig|dec)          # OpenPGP key(s) lock'',
      ''  unlock (all|sig|dec)          # OpenPGP key(s) unlock, prompts passphrase'',
      [],
      ''  rpc                           # PKCS#11 RPC socket'',
      ''                                # use with '' @ [char_of (39 :: nat)] @
        ''ssh -L p11kit.sock:127.0.0.1:22'' @ [char_of (39 :: nat)],
      [],
      ''  age-plugin (gen|identity-v1)  # handle age plugin state machine'',
      [],
      ''  u2f                           # initialize U2F token w/  user presence test'',
      ''  u2f !test                     # initialize U2F token w/o user presence test'',
      ''  p                             # confirm user presence''])"

section \<open>The two patterns\<close>

fun strip_prefix :: "string \<Rightarrow> string \<Rightarrow> string option" where
  "strip_prefix [] s = Some s"
| "strip_prefix (p # ps) [] = None"
| "strip_prefix (p # ps) (c # s) = (if p = c then strip_prefix ps s else None)"

text \<open>Neither expression is anchored: the leftmost position where it matches counts.\<close>

fun leftmost :: "(string \<Rightarrow> 'a option) \<Rightarrow> string \<Rightarrow> 'a option" where
  "leftmost m [] = m []"
| "leftmost m (c # s) = (case m (c # s) of Some r \<Rightarrow> Some r | None \<Rightarrow> leftmost m s)"

definition lock_arg :: "string \<Rightarrow> string option" where
  "lock_arg s =
     (if strip_prefix ''all'' s \<noteq> None then Some ''all''
      else if strip_prefix ''sig'' s \<noteq> None then Some ''sig''
      else if strip_prefix ''dec'' s \<noteq> None then Some ''dec'' else None)"

definition lock_match :: "string \<Rightarrow> (string \<times> string) option" where
  "lock_match s =
     (case do { rest \<leftarrow> strip_prefix ''lock '' s; arg \<leftarrow> lock_arg rest; Some (''lock'', arg) } of
        Some r \<Rightarrow> Some r
      | None \<Rightarrow> do { rest \<leftarrow> strip_prefix ''unlock '' s; arg \<leftarrow> lock_arg rest; Some (''unlock'', arg) })"

definition lockCommandPattern :: "string \<Rightarrow> (string \<times> string) option" where
  "lockCommandPattern cmd = leftmost lock_match cmd"

definition pageCommandPattern :: "string \<Rightarrow> string option" where
  "pageCommandPattern cmd =
     leftmost (\<lambda>s. map_option (takeWhile (\<lambda>c. c \<noteq> char_of (10 :: nat))) (strip_prefix ''age-plugin '' s)) cmd"

section \<open>lockCommand\<close>

definition lock_pws :: "string \<Rightarrow> byte list" where
  "lock_pws arg =
     (if arg = ''sig'' \<or> arg = ''all'' then [PW1_CDS] else []) @
     (if arg = ''dec'' \<or> arg = ''all'' then [PW1] else [])"

fun verify_all ::
    "('x) pgplib_scheme \<Rightarrow> byte \<Rightarrow> bytes \<Rightarrow> byte list \<Rightarrow> card \<Rightarrow> (goerr option \<times> card) option" where
  "verify_all L p1 pass [] c = Some (None, c)"
| "verify_all L p1 pass (pw # pws) c =
     do {
       ((_, err), c') \<leftarrow> Verify L p1 pw pass c;
       if err \<noteq> None then Some (err, c') else verify_all L p1 pass pws c'
     }"

definition error_string :: "goerr option \<Rightarrow> string" where
  "error_string err = (case err of Some e \<Rightarrow> error_text e | None \<Rightarrow> [])"

definition lockCommand ::
    "('x) pgplib_scheme \<Rightarrow> string \<Rightarrow> string \<Rightarrow> console \<Rightarrow> (string \<times> console) option" where
  "lockCommand L op arg con =
     (if lock_pws arg = [] then Some ([], con)
      else if op = ''lock'' then
        (if \<not> Initialized (co_card con) then Some (''card not initialized'', con)
         else do {
           (err, c) \<leftarrow> verify_all L PW_LOCK [] (lock_pws arg) (co_card con);
           Some (error_string err, con\<lparr>co_card := c\<rparr>)
         })
      else if op = ''unlock'' then
        do {
          (err, c) \<leftarrow> (if \<not> Initialized (co_card con) then Init L (co_card con)
                       else Some (None, co_card con));
          let con1 = con\<lparr>co_card := c\<rparr>;
          if err \<noteq> None then Some (error_string err, con1)
          else
            let ((passphrase, err), con2) = term_read con1
            in if err \<noteq> None then Some (error_string err, con2)
               else do {
                 (err, c') \<leftarrow> verify_all L PW_VERIFY (str_bytes passphrase) (lock_pws arg) (co_card con2);
                 Some (error_string err, con2\<lparr>co_card := c'\<rparr>)
               }
        }
      else Some ([], con))"

section \<open>handleCommand\<close>

text \<open>The end of \<^verbatim>\<open>handleCommand\<close>: the result goes to the terminal.\<close>

definition println :: "string \<Rightarrow> goerr option \<Rightarrow> console \<Rightarrow> goerr option \<times> console" where
  "println res err con = (err, term_write (res @ newline) con)"

definition token_init :: "('x) conslib_scheme \<Rightarrow> chan option \<Rightarrow> console \<Rightarrow> (goerr option \<times> console) option" where
  "token_init L presence con =
     do {
       (err, t, hw) \<leftarrow> Token_Init L ((co_token con)\<lparr>t_Presence := presence\<rparr>) (co_hw con);
       Some (println [] err (con\<lparr>co_token := t, co_hw := hw\<rparr>))
     }"

text \<open>
  The command \<^verbatim>\<open>p\<close>: the send succeeds when \<^verbatim>\<open>UserPresence\<close> is waiting on the token's
  channel.
\<close>

definition confirm_presence :: "console \<Rightarrow> string \<times> console" where
  "confirm_presence con =
     (if \<not> Token_Initialized (co_token con)
      then (''token not initialized, issue '' @ [char_of (39 :: nat)] @ ''u2f'' @ [char_of (39 :: nat)] @
            '' first'', con)
      else if t_Presence (co_token con) = None then (''U2F presence not required'', con)
      else if co_waiting con = t_Presence (co_token con) then ([], con\<lparr>co_waiting := None\<rparr>)
      else (''U2F presence not requested'', con))"

definition handleCommand ::
    "('x) conslib_scheme \<Rightarrow> bytes \<Rightarrow> string \<Rightarrow> console \<Rightarrow> (goerr option \<times> console) option" where
  "handleCommand L rw cmd con =
     (if cmd = ''exit'' \<or> cmd = ''quit'' then Some (println ''logout'' (Some EOF) con)
      else if cmd = ''help'' then Some (println (EscCyan L @ help_text @ EscReset L) None con)
      else if cmd = ''init'' then
        do { (err, c) \<leftarrow> Init L (co_card con); Some (println [] err (con\<lparr>co_card := c\<rparr>)) }
      else if cmd = ''rpc'' then
        do { (err, c) \<leftarrow> ServeRPC L rw (co_card con); Some (err, con\<lparr>co_card := c\<rparr>) }
      else if cmd = ''u2f'' then
        token_init L (Some (co_next_chan con)) (con\<lparr>co_next_chan := Suc (co_next_chan con)\<rparr>)
      else if cmd = ''u2f !test'' then token_init L None con
      else if cmd = ''p'' then
        (let (res, con') = confirm_presence con in Some (println res None con'))
      else if cmd = ''rand'' then
        (let ((buf, _), s) = RandRead L (c_rng (co_card con)) 32
         in Some (println (EscCyan L @ fmt_x buf @ EscReset L) None
              (con\<lparr>co_card := (co_card con)\<lparr>c_rng := s\<rparr>\<rparr>)))
      else if cmd = ''reboot'' then Some (println [] None (con\<lparr>co_reset := True\<rparr>))
      else if cmd = ''status'' then
        do {
          s1 \<leftarrow> Status (co_card con);
          (s2, hw) \<leftarrow> Token_Status L (co_token con) (co_hw con);
          Some (println (s1 @ s2) None (con\<lparr>co_hw := hw\<rparr>))
        }
      else if cmd = ''build'' then
        Some (println (case BuildInfo L of Some bi \<Rightarrow> bi | None \<Rightarrow> []) None con)
      else
        case pageCommandPattern cmd of
          Some sm \<Rightarrow>
            if \<not> Plugin_Initialized (co_plugin con)
            then Some (println ''plugin not initialized'' None con)
            else do {
              (res, s) \<leftarrow> Plugin_Handle L rw sm (co_plugin con) (c_rng (co_card con));
              Some (println res None (con\<lparr>co_card := (co_card con)\<lparr>c_rng := s\<rparr>\<rparr>))
            }
        | None \<Rightarrow>
            (case lockCommandPattern cmd of
               Some (op, arg) \<Rightarrow>
                 do { (res, con') \<leftarrow> lockCommand L op arg con; Some (println res None con') }
             | None \<Rightarrow> Some (Some (GoErr ''unknown command, type `help`''), con)))"

section \<open>handleTerminal\<close>

lemma term_read_input: "term_read con = (line, con') \<Longrightarrow> length (co_input con') \<le> length (co_input con)"
  by (auto simp: term_read_def split: list.splits)

lemma lockCommand_input:
  "lockCommand L op arg con = Some (res, con') \<Longrightarrow> length (co_input con') \<le> length (co_input con)"
  by (auto simp: lockCommand_def Let_def bind_eq_Some_conv split: if_splits prod.splits dest!: term_read_input)

lemma handleCommand_input:
  "handleCommand L rw cmd con = Some (err, con') \<Longrightarrow> length (co_input con') \<le> length (co_input con)"
  by (auto simp: handleCommand_def println_def term_write_def token_init_def confirm_presence_def
      Let_def bind_eq_Some_conv split: if_splits prod.splits option.splits dest!: lockCommand_input)

text \<open>The loop of \<^verbatim>\<open>handleTerminal\<close>, one line per iteration until the session ends.\<close>

function terminal_loop :: "('x) conslib_scheme \<Rightarrow> bytes \<Rightarrow> console \<Rightarrow> console option" where
  "terminal_loop L rw con =
     (case co_input con of
        [] \<Rightarrow> Some con
      | (cmd, err) # rest \<Rightarrow>
          let con1 = con\<lparr>co_input := rest\<rparr>
          in (case err of
                Some EOF \<Rightarrow> Some con1
              | Some _ \<Rightarrow> terminal_loop L rw con1
              | None \<Rightarrow>
                  (case handleCommand L rw cmd con1 of
                     None \<Rightarrow> None
                   | Some (Some EOF, con2) \<Rightarrow> Some con2
                   | Some (_, con2) \<Rightarrow> terminal_loop L rw con2)))"
  by pat_completeness auto
termination
  by (relation "measure (\<lambda>(L, rw, con). length (co_input con))")
    (auto dest!: handleCommand_input)

declare terminal_loop.simps [simp del]

definition handleTerminal :: "('x) conslib_scheme \<Rightarrow> bytes \<Rightarrow> string \<Rightarrow> console \<Rightarrow> console option" where
  "handleTerminal L rw banner con =
     terminal_loop L rw
       (term_write (EscCyan L @ help_text @ EscReset L @ newline) (term_write (banner @ newline) con))"

section \<open>Sessions and channels\<close>

record ssh_request =
  req_Type :: string
  req_Payload :: bytes

datatype session_action = Exec string | Shell | Resize int int | Malformed | Unhandled

text \<open>What \<^verbatim>\<open>handleSession\<close> does with a request; \<^verbatim>\<open>int\<close> has 32 bits.\<close>

definition session_action :: "ssh_request \<Rightarrow> session_action option" where
  "session_action req =
     (let reqSize = length (req_Payload req)
      in if req_Type req = ''exec'' then
           map_option (\<lambda>cmd. Exec (bytes_str cmd)) (slice_from (req_Payload req) 4)
         else if req_Type req = ''shell'' then Some Shell
         else if req_Type req = ''pty-req'' then
           (if reqSize < 4 then Some Malformed
            else
              let termVariableSize = unat (req_Payload req ! 3)
              in if reqSize < 4 + termVariableSize + 8 then Some Malformed
                 else do {
                   wb \<leftarrow> slice_from (req_Payload req) (4 + termVariableSize);
                   w \<leftarrow> be_uint32 wb;
                   hb \<leftarrow> slice_from (req_Payload req) (4 + termVariableSize + 4);
                   h \<leftarrow> be_uint32 hb;
                   Some (Resize (sint w) (sint h))
                 })
         else if req_Type req = ''window-change'' then
           (if reqSize < 8 then Some Malformed
            else do {
              w \<leftarrow> be_uint32 (req_Payload req);
              hb \<leftarrow> slice_from (req_Payload req) 4;
              h \<leftarrow> be_uint32 hb;
              Some (Resize (sint w) (sint h))
            })
         else Some Unhandled)"

text \<open>
  The request loop: \<^verbatim>\<open>exec\<close> runs one command and closes the channel, \<^verbatim>\<open>shell\<close> starts
  \<^verbatim>\<open>handleTerminal\<close> beside the loop, which the result counts.
\<close>

fun handleSession ::
    "('x) conslib_scheme \<Rightarrow> bytes \<Rightarrow> ssh_request list \<Rightarrow> nat \<Rightarrow> console \<Rightarrow> (nat \<times> console) option" where
  "handleSession L rw [] shells con = Some (shells, con)"
| "handleSession L rw (req # reqs) shells con =
     do {
       act \<leftarrow> session_action req;
       (case act of
          Exec cmd \<Rightarrow> map_option (\<lambda>(_, con'). (shells, con')) (handleCommand L rw cmd con)
        | Shell \<Rightarrow> handleSession L rw reqs (Suc shells) con
        | _ \<Rightarrow> handleSession L rw reqs shells con)
     }"

definition handleDirectForward :: "('x) conslib_scheme \<Rightarrow> bytes \<Rightarrow> console \<Rightarrow> console option" where
  "handleDirectForward L rw con = map_option snd (handleCommand L rw ''rpc'' con)"

definition handleChannel ::
    "('x) conslib_scheme \<Rightarrow> string \<Rightarrow> bytes \<Rightarrow> ssh_request list \<Rightarrow> console \<Rightarrow> (nat \<times> console) option" where
  "handleChannel L channelType rw reqs con =
     (if channelType = ''direct-tcpip'' then map_option (\<lambda>con'. (0, con')) (handleDirectForward L rw con)
      else if channelType = ''session'' then handleSession L rw reqs 0 con
      else Some (0, con))"

section \<open>Start\<close>

definition diversifierDev :: bytes where
  "diversifierDev = str_bytes ''GoKeySNVSDeviceK''"

definition DeviceKey :: "('x) conslib_scheme \<Rightarrow> bytes \<times> goerr option" where
  "DeviceKey L =
     (let (key, err) = DeriveKey L diversifierDev (replicate aes_BlockSize 0) (-1)
      in if err \<noteq> None then ([], err)
         else
           let (key, err) = Hkdf L key (UniqueID L)
           in if err \<noteq> None then ([], err) else KeygenECDSA L key)"

text \<open>\<^verbatim>\<open>Start\<close> up to the server's goroutine: the host key; an error is fatal.\<close>

definition Start :: "('x) conslib_scheme \<Rightarrow> console \<Rightarrow> (bytes \<times> console) option" where
  "Start L con =
     (let snvs = c_SNVS (co_card con) \<or> t_SNVS (co_token con)
      in do {
        ((key, err), con') \<leftarrow>
          (if length (co_PrivateKey con) \<noteq> 0 then
             do {
               (priv, _) \<leftarrow> (if snvs then snvs_Decrypt L (co_PrivateKey con) DiversifierSSH
                              else Some (co_PrivateKey con, None));
               Some (ParseRawPrivateKey L priv, con\<lparr>co_PrivateKey := priv\<rparr>)
             }
           else if snvs then Some (DeviceKey L, con)
           else
             let (r, s) = EcdsaGenerateKey L (c_rng (co_card con))
             in Some (r, con\<lparr>co_card := (co_card con)\<lparr>c_rng := s\<rparr>\<rparr>));
        if err \<noteq> None then None else Some (key, con')
      })"

text \<open>\<^verbatim>\<open>start\<close>: fatal errors, or the callback that authenticates clients by their public key.\<close>

definition start :: "('x) conslib_scheme \<Rightarrow> bytes \<Rightarrow> console \<Rightarrow> (bytes \<Rightarrow> bool) option" where
  "start L key con =
     (case ParseAuthorizedKey L (co_AuthorizedKey con) of
        (_, Some _) \<Rightarrow> None
      | (pubKey, None) \<Rightarrow>
          (case NewSignerFromKey L key of
             (_, Some _) \<Rightarrow> None
           | (_, None) \<Rightarrow> Some (\<lambda>clientKey. clientKey = pubKey)))"

section \<open>What the console does to the card\<close>

lemma verify_all_moves: "verify_all L p1 pass pws c = Some (err, c') \<Longrightarrow> card_moves L c c'"
proof (induction pws arbitrary: c)
  case (Cons pw pws)
  then obtain r err1 c1 where step: "Verify L p1 pw pass c = Some ((r, err1), c1)"
    and rest: "(if err1 \<noteq> None then Some (err1, c1) else verify_all L p1 pass pws c1) = Some (err, c')"
    by (auto simp: bind_eq_Some_conv)
  from rest have "card_moves L c1 c'"
    using Cons.IH by (auto split: if_splits intro: card_moves.stay)
  then show ?case
    using card_moves_verify [OF step] by (rule card_moves_trans)
qed (simp add: card_moves.stay)

lemma Init_initialized: "Initialized c \<Longrightarrow> Init L c = Some (Some (GoErr ''card already initialized''), c)"
  by (simp add: Init_def Initialized_def)

lemma lockCommand_moves:
  assumes "lockCommand L op arg con = Some (res, con')" and "Initialized (co_card con)"
  shows "card_moves L (co_card con) (co_card con')"
  using assms
  by (auto simp: lockCommand_def Let_def bind_eq_Some_conv term_read_def
      split: if_splits prod.splits list.splits intro: card_moves.stay verify_all_moves)

lemma handleCommand_moves:
  assumes "handleCommand L rw cmd con = Some (err, con')" and "Initialized (co_card con)"
  shows "card_moves L (co_card con) (co_card con')"
  using assms
  by (auto simp: handleCommand_def println_def term_write_def token_init_def confirm_presence_def
      Init_initialized Let_def bind_eq_Some_conv
      split: if_splits prod.splits option.splits
      intro: card_moves.stay card_moves_quiet rng_quiet
      dest!: ServeRPC_quiet lockCommand_moves)

section \<open>Properties\<close>

text \<open>
  The console understands its lock commands: each of the two operations with each of the
  three arguments is recognized as such. Because the expression is not anchored, the same holds
  wherever in a line the words appear, for instance inside another word.
\<close>

theorem lock_command_recognized:
  "list_all (\<lambda>(op, arg). lockCommandPattern (op @ '' '' @ arg) = Some (op, arg))
     [(''lock'', ''all''), (''lock'', ''sig''), (''lock'', ''dec''),
      (''unlock'', ''all''), (''unlock'', ''sig''), (''unlock'', ''dec'')] \<and>
   lockCommandPattern ''padlock allowance'' = Some (''lock'', ''all'')"
  by (simp add: lockCommandPattern_def lock_match_def lock_arg_def)

text \<open>
  The command \<^verbatim>\<open>lock all\<close> locks: on an initialized card it never fails or panics, and
  leaves the signature and the decryption key locked if they were imported with a passphrase.
\<close>

theorem lock_all_locks:
  assumes "Initialized (co_card con)" and "card_inv (co_card con)"
    and "pv_Encrypted (c_sig (co_card con))" and "pv_Encrypted (c_dec (co_card con))"
  shows "\<exists>con'. lockCommand L ''lock'' ''all'' con = Some ([], con') \<and>
    (\<forall>sk \<in> {c_Sig (co_card con), c_Dec (co_card con)}.
       subkey_priv (co_card con) sk \<noteq> None \<longrightarrow> slot_locked (co_card con') sk)"
proof -
  let ?c = "co_card con"
  obtain r1 e1 c1 where 1: "Verify L PW_LOCK PW1_CDS [] ?c = Some ((r1, e1), c1)"
    using lock_total [OF assms(2)] by (metis surj_pair)
  note q1 = quiet_stepD [OF lock.run_quiet [OF 1]]
  obtain r2 e2 c2 where 2: "Verify L PW_LOCK PW1 [] c1 = Some ((r2, e2), c2)"
    using lock_total [OF q1(2) [OF assms(2)]] by (metis surj_pair)
  note q2 = quiet_stepD [OF lock.run_quiet [OF 2]]
  note ids = card_identityD [OF q1(1)]
  have err: "e = None" if "Verify L PW_LOCK p2 [] c = Some ((r, e), c')" for p2 c r e c'
    using that by (auto simp: Verify_alt lock_key_def split: option.splits if_splits)
  have "slot_locked c2 (c_Sig ?c)" if "subkey_priv ?c (c_Sig ?c) = Some (a, p)" for a p
    using lock_locks [OF assms(2) 1, of a p] q2(5) [OF q1(2) [OF assms(2)], of "c_Sig ?c"] that assms(3) ids
    by (simp add: pin_slot_def)
  moreover have "slot_locked c2 (c_Dec ?c)" if "subkey_priv c1 (c_Dec ?c) = Some (a, p)" for a p
    using lock_locks [OF q1(2) [OF assms(2)] 2, of a p] that assms(4) ids by (simp add: pin_slot_def)
  moreover have "subkey_priv c1 sk \<noteq> None" if "subkey_priv ?c sk \<noteq> None" for sk
    using 1 that by (elim Verify_cases)
      (auto simp: same_keys_slots(1) [OF signal_frame(1)] subkey_priv_set_private)
  ultimately have "subkey_priv ?c sk \<noteq> None \<longrightarrow> slot_locked c2 sk" if "sk \<in> {c_Sig ?c, c_Dec ?c}" for sk
    using that by (auto simp del: not_None_eq) (metis option.exhaust surj_pair)+
  then show ?thesis
    using assms(1) 1 2 err [OF 1] err [OF 2]
    by (simp add: lockCommand_def lock_pws_def error_string_def)
qed

text \<open>A wrong passphrase costs a try.\<close>

lemma verify_pin_wrong:
  assumes "pv_Encrypted (c_pkh c p)" and "c_errorCounterPW1 c \<noteq> 0" and "pw \<noteq> []"
    and "PkDecrypt L (c_pkh c p) pw = (Some e, c_pkh c p)"
  shows "verify_pin L p pw c = ((Some (VerifyFail (c_errorCounterPW1 c - 1)), None),
    c\<lparr>c_errorCounterPW1 := c_errorCounterPW1 c - 1\<rparr>)"
  using assms by (simp add: verify_pin_def Let_def)

text \<open>
  C28. \<^verbatim>\<open>unlock all\<close> with a passphrase that fits neither key costs two of the three tries: both keys
  are tried against the one retry counter. The console reports no error.
\<close>

theorem unlock_all_costs_two:
  assumes "Initialized (co_card con)" and "co_input con = (pw, None) # rest" and "pw \<noteq> []"
    and "subkey_priv (co_card con) (c_Sig (co_card con)) = Some (a, p)"
    and "subkey_priv (co_card con) (c_Dec (co_card con)) = Some (b, q)"
    and "pv_Encrypted (c_pkh (co_card con) p)" and "pv_Encrypted (c_pkh (co_card con) q)"
    and "PkDecrypt L (c_pkh (co_card con) p) (str_bytes pw) = (Some e, c_pkh (co_card con) p)"
    and "PkDecrypt L (c_pkh (co_card con) q) (str_bytes pw) = (Some e', c_pkh (co_card con) q)"
    and "1 < unat (c_errorCounterPW1 (co_card con))"
  shows "\<exists>con'. lockCommand L ''unlock'' ''all'' con = Some ([], con') \<and>
    c_errorCounterPW1 (co_card con') = c_errorCounterPW1 (co_card con) - 2"
proof -
  let ?c = "co_card con"
  let ?n = "c_errorCounterPW1 ?c"
  let ?c1 = "signalVerificationStatus (?c\<lparr>c_errorCounterPW1 := ?n - 1\<rparr>)"
  let ?c2 = "signalVerificationStatus (?c1\<lparr>c_errorCounterPW1 := ?n - 1 - 1\<rparr>)"
  have pass: "str_bytes pw \<noteq> []"
    using assms(3) by (simp add: str_bytes_def)
  have n: "?n \<noteq> 0" "?n - 1 \<noteq> 0"
    using assms(10) by (auto simp: word_unat_eq_iff unat_minus_one)
  have frame: "same_keys ?c ?c1" "card_identity ?c1 = card_identity ?c" "c_errorCounterPW1 ?c1 = ?n - 1"
    using signal_frame [of "?c\<lparr>c_errorCounterPW1 := ?n - 1\<rparr>"]
    by (simp_all add: same_keys_def card_identity_def)
  have "Verify L PW_VERIFY PW1_CDS (str_bytes pw) ?c = Some ((Some (VerifyFail (?n - 1)), None), ?c1)"
    using verify_pin_wrong [of ?c p "str_bytes pw" L e] assms(4,6,8) n pass
    by (simp add: Verify_alt pin_slot_def)
  moreover have "Verify L PW_VERIFY PW1 (str_bytes pw) ?c1 = Some ((Some (VerifyFail (?n - 1 - 1)), None), ?c2)"
    using verify_pin_wrong [of ?c1 q "str_bytes pw" L e'] assms(5,7,9) n pass
      same_keys_slots(1) [OF frame(1)] same_keysD(2) [OF frame(1)] card_identityD [OF frame(2)] frame(3)
    by (simp add: Verify_alt pin_slot_def)
  moreover have "c_errorCounterPW1 ?c2 = ?n - 2"
    by (simp add: frame_simps)
  ultimately show ?thesis
    using assms(1,2)
    by (simp add: lockCommand_def lock_pws_def term_read_def error_string_def)
qed

text \<open>
  A malformed \<^verbatim>\<open>exec\<close> request panics the firmware: it is the only session request that
  can, and does so exactly when its payload is shorter than the four-byte length field that is
  skipped unchecked.
\<close>

theorem session_panics_iff:
  "session_action req = None \<longleftrightarrow> req_Type req = ''exec'' \<and> length (req_Payload req) < 4"
proof -
  have word: "\<exists>w. be_uint32 xs = Some w" if "4 \<le> length xs" for xs
    using that by (rule be32.dec_long)
  have pty: "\<exists>w h. be_uint32 (drop n xs) = Some w \<and> be_uint32 (drop (n + 4) xs) = Some h"
    if "n + 8 \<le> length xs" for n and xs :: bytes
    using word [of "drop n xs"] word [of "drop (n + 4) xs"] that by auto
  have win: "\<exists>w h. be_uint32 xs = Some w \<and> be_uint32 (drop 4 xs) = Some h" if "8 \<le> length xs" for xs :: bytes
    using pty [of 0 xs] that by simp
  show ?thesis
    using pty [of "4 + unat (req_Payload req ! 3)" "req_Payload req"] win [of "req_Payload req"]
    by (auto simp: session_action_def Let_def slice_from_def not_less add.assoc split: if_splits)
qed

section \<open>Concrete runs\<close>

definition sample_console :: "card \<Rightarrow> console" where
  "sample_console c = \<lparr>co_AuthorizedKey = [], co_PrivateKey = [], co_card = c, co_token = sample_token,
     co_plugin = \<lparr>p_SNVS = True, p_plugin = True, p_initialized = True\<rparr>, co_hw = sample_hw,
     co_next_chan = 5, co_waiting = None, co_input = [(''wrong'', None)], co_out = [], co_reset = False\<rparr>"

theorem lock_all_locks_witness:
  "\<exists>con'. lockCommand sample_lib ''lock'' ''all'' (sample_console open_card) = Some ([], con') \<and>
     slot_locked (co_card con') (Some 0) \<and> slot_locked (co_card con') (Some 1)"
proof -
  have "c_initialized open_card" "c_dec open_card = sample_dec"
    by (simp_all add: open_card_def)
  then show ?thesis
    using lock_all_locks [of "sample_console open_card" sample_lib] open_card_inv
    by (simp add: sample_console_def Initialized_def sample_sig_def sample_dec_def)
qed

theorem unlock_all_costs_two_witness:
  "\<exists>con'. lockCommand sample_lib ''unlock'' ''all'' (sample_console sample_card) = Some ([], con') \<and>
     c_errorCounterPW1 (co_card con') = 1"
proof -
  have "str_bytes ''wrong'' \<noteq> [1, 2]" "str_bytes ''wrong'' \<noteq> [3, 4]"
    by (simp_all add: str_bytes_def)
  then show ?thesis
    using unlock_all_costs_two [of "sample_console sample_card" "''wrong''" "[]" 0 0 1 1 sample_lib
        "GoErr ''wrong passphrase''" "GoErr ''wrong passphrase''"]
    by (simp add: sample_console_def Initialized_def sample_key_defs)
qed

end
