(* ===== verification/Bundle.thy ===== *)
theory Bundle
  imports Console
begin

text \<open>
  The build-time key bundler, \<^verbatim>\<open>src/bundle_keys.go\<close>, which runs under Linux on the target
  board: it derives wrapping keys through the kernel's interface to the DCP, wraps the private
  keys and writes the assignments of the generated \<^verbatim>\<open>init\<close> function. The operating system
  is a parameter (\<open>hostlib\<close>); \<^verbatim>\<open>log.Fatal\<close> is \<^term>\<open>None\<close>. The control message
  layout is that of the 32-bit board. Of the generated Go file the model has the assignments,
  not their text.
\<close>

section \<open>Parameters\<close>

record hostlib = cryptolib +
  Getenv :: "string \<Rightarrow> string"
  ReadFile :: "string \<Rightarrow> bytes \<times> goerr option"
  ReadRandom :: "rng \<Rightarrow> nat \<Rightarrow> (bytes \<times> goerr option) \<times> rng"
  AlgSocket :: "goerr option"
  AlgBind :: "string \<Rightarrow> string \<Rightarrow> goerr option"
  AlgSetKey :: "bytes \<Rightarrow> goerr option"
  AlgSendmsg :: "bytes \<Rightarrow> bytes \<Rightarrow> goerr option"
  AlgRead :: "bytes \<Rightarrow> bytes \<Rightarrow> bytes \<times> goerr option"
  CreateFile :: "goerr option"

section \<open>Key derivation\<close>

abbreviation (input) ALG_TYPE :: string where "ALG_TYPE \<equiv> ''skcipher''"
abbreviation (input) ALG_NAME :: string where "ALG_NAME \<equiv> ''cbc-paes-dcp''"
abbreviation (input) DCP_PAES_KEY_UNIQUE :: bytes where "DCP_PAES_KEY_UNIQUE \<equiv> [0xfe]"
abbreviation (input) SOL_ALG :: u32 where "SOL_ALG \<equiv> 279"
abbreviation (input) ALG_SET_IV :: u32 where "ALG_SET_IV \<equiv> 2"
abbreviation (input) ALG_SET_OP :: u32 where "ALG_SET_OP \<equiv> 3"
abbreviation (input) ALG_OP_ENCRYPT :: u32 where "ALG_OP_ENCRYPT \<equiv> 1"

definition cmsghdr :: "u32 \<Rightarrow> u32 \<Rightarrow> u32 \<Rightarrow> bytes" where
  "cmsghdr len level type = le_put32 len @ le_put32 level @ le_put32 type"

definition buildCmsg :: "u32 \<Rightarrow> bytes \<Rightarrow> bytes" where
  "buildCmsg mode iv =
     cmsghdr 16 SOL_ALG ALG_SET_OP @ le_put32 mode @
     cmsghdr 32 SOL_ALG ALG_SET_IV @ le_put32 (of_nat (length iv)) @ copy_into (replicate aes_BlockSize 0) iv"

definition cryptoAPI :: "('x) hostlib_scheme \<Rightarrow> u32 \<Rightarrow> bytes \<Rightarrow> bytes \<Rightarrow> bytes \<times> goerr option" where
  "cryptoAPI H mode iv input =
     (let cmsg = buildCmsg mode iv;
          output = replicate (length input) 0
      in case AlgSendmsg H cmsg input of
           Some e \<Rightarrow> (output, Some e)
         | None \<Rightarrow> (let (got, err) = AlgRead H cmsg input in (copy_into output got, err)))"

definition deriveKey :: "('x) hostlib_scheme \<Rightarrow> bytes \<Rightarrow> bytes \<Rightarrow> bytes \<times> goerr option" where
  "deriveKey H diversifier iv =
     (if length iv \<noteq> aes_BlockSize then ([], Some (GoErr ''invalid IV size''))
      else if length diversifier > aes_BlockSize then ([], Some (GoErr ''invalid diversifier size''))
      else if AlgSocket H \<noteq> None then ([], AlgSocket H)
      else if AlgBind H ALG_TYPE ALG_NAME \<noteq> None
        then ([], AlgBind H ALG_TYPE ALG_NAME)
      else if AlgSetKey H DCP_PAES_KEY_UNIQUE \<noteq> None then ([], AlgSetKey H DCP_PAES_KEY_UNIQUE)
      else cryptoAPI H ALG_OP_ENCRYPT iv (Pad diversifier False))"

definition bundle_encrypt ::
    "('x) hostlib_scheme \<Rightarrow> string \<Rightarrow> bytes \<Rightarrow> rng \<Rightarrow> ((bytes \<times> goerr option) \<times> rng) option" where
  "bundle_encrypt H path diversifier s =
     (let (input, err) = ReadFile H path
      in if err \<noteq> None then Some (([], err), s)
         else
           let (key, err) = deriveKey H diversifier (replicate aes_BlockSize 0)
           in if err \<noteq> None then Some (([], err), s)
              else
                let ((iv, err), s') = ReadRandom H s aes_BlockSize
                in if err \<noteq> None then Some (([], err), s')
                   else map_option (\<lambda>r. (r, s')) (Encrypt_stub H input key iv))"

section \<open>main\<close>

datatype setting = SetBool bool | SetBytes bytes | SetString string

text \<open>A public key: the file the variable names, nothing when it is not set.\<close>

definition bundle_public :: "('x) hostlib_scheme \<Rightarrow> string \<Rightarrow> bytes option" where
  "bundle_public H var =
     (if Getenv H var = [] then Some []
      else case ReadFile H (Getenv H var) of (key, None) \<Rightarrow> Some key | (_, Some _) \<Rightarrow> None)"

text \<open>A private key: wrapped when \<^verbatim>\<open>SNVS\<close> is set, the file itself otherwise.\<close>

definition bundle_private ::
    "('x) hostlib_scheme \<Rightarrow> bool \<Rightarrow> string \<Rightarrow> bytes \<Rightarrow> rng \<Rightarrow> (bytes \<times> rng) option" where
  "bundle_private H snvs var diversifier s =
     (if Getenv H var = [] then Some ([], s)
      else if snvs then
        (case bundle_encrypt H (Getenv H var) diversifier s of
           Some ((key, None), s') \<Rightarrow> Some (key, s')
         | _ \<Rightarrow> None)
      else case ReadFile H (Getenv H var) of (key, None) \<Rightarrow> Some (key, s) | (_, Some _) \<Rightarrow> None)"

definition bytes_setting :: "string \<Rightarrow> bytes \<Rightarrow> (string \<times> setting) list" where
  "bytes_setting var key = (if length key > 0 then [(var, SetBytes key)] else [])"

text \<open>The assignments written to the generated file.\<close>

definition bundle_settings ::
    "('x) hostlib_scheme \<Rightarrow> bytes \<Rightarrow> bytes \<Rightarrow> bytes \<Rightarrow> bytes \<Rightarrow> bytes \<Rightarrow> (string \<times> setting) list" where
  "bundle_settings H sshPublicKey sshPrivateKey pgpSecretKey u2fPublicKey u2fPrivateKey =
     (if Getenv H ''SNVS'' \<noteq> [] then [(''SNVS'', SetBool True)] else []) @
     [(''initAtBoot'', SetBool (Getenv H ''SNVS'' \<noteq> ''ssh''))] @
     bytes_setting ''sshPublicKey'' sshPublicKey @
     bytes_setting ''sshPrivateKey'' sshPrivateKey @
     bytes_setting ''pgpSecretKey'' pgpSecretKey @
     (if length pgpSecretKey > 0
      then [(''URL'', SetString (Getenv H ''URL'')), (''NAME'', SetString (Getenv H ''NAME'')),
            (''LANGUAGE'', SetString (Getenv H ''LANGUAGE'')), (''SEX'', SetString (Getenv H ''SEX''))]
      else []) @
     bytes_setting ''u2fPublicKey'' u2fPublicKey @
     bytes_setting ''u2fPrivateKey'' u2fPrivateKey"

definition bundle_main :: "('x) hostlib_scheme \<Rightarrow> rng \<Rightarrow> (string \<times> setting) list option" where
  "bundle_main H s =
     (let snvs = (Getenv H ''SNVS'' \<noteq> [])
      in if snvs \<and> snd (deriveKey H (str_bytes ''test'') (replicate aes_BlockSize 0)) \<noteq> None then None
         else do {
           sshPublicKey \<leftarrow> bundle_public H ''SSH_PUBLIC_KEY'';
           (if Getenv H ''SNVS'' = ''ssh'' \<and> sshPublicKey = [] then None else Some ());
           (sshPrivateKey, s1) \<leftarrow> bundle_private H snvs ''SSH_PRIVATE_KEY'' DiversifierSSH s;
           (pgpSecretKey, s2) \<leftarrow> bundle_private H snvs ''PGP_SECRET_KEY'' DiversifierPGP s1;
           u2fPublicKey \<leftarrow> bundle_public H ''U2F_PUBLIC_KEY'';
           (u2fPrivateKey, s3) \<leftarrow> bundle_private H snvs ''U2F_PRIVATE_KEY'' DiversifierU2F s2;
           (if CreateFile H \<noteq> None then None else Some ());
           Some (bundle_settings H sshPublicKey sshPrivateKey pgpSecretKey u2fPublicKey u2fPrivateKey)
         })"

section \<open>Properties\<close>

text \<open>
  The wrapping keys are separate: the diversifiers of the OpenPGP, SSH, U2F, age and device
  keys are pairwise different, and each is exactly one AES block, so padding does not identify
  any two and the derived keys have 16 bytes (AES-128).
\<close>

theorem diversifiers_separate:
  "distinct [DiversifierPGP, DiversifierSSH, DiversifierU2F, DiversifierAGE, diversifierDev] \<and>
   list_all (\<lambda>d. length d = 16 \<and> Pad d False = d)
     [DiversifierPGP, DiversifierSSH, DiversifierU2F, DiversifierAGE, diversifierDev]"
  by (simp add: DiversifierPGP_def DiversifierSSH_def DiversifierU2F_def DiversifierAGE_def
      diversifierDev_def str_bytes_def Pad_def)

text \<open>
  Without the extra block, padding loses information: two diversifiers of different length
  can pad to the same block and then derive the same key.
\<close>

theorem Pad_collides:
  assumes "d \<noteq> []" and "length d < 16"
  shows "Pad (d @ replicate (16 - length d) (of_nat (16 - length d))) False = Pad d False"
  using assms by (simp add: Pad_def Let_def)

theorem Pad_collides_witness:
  "Pad ([7] @ replicate 15 15) False = Pad [7] False \<and> [7] @ replicate 15 15 \<noteq> ([7] :: bytes)"
  using Pad_collides [of "[7]"] by simp

text \<open>Host and device share the block cipher and the hash function.\<close>

definition same_crypto :: "('x) cryptolib_scheme \<Rightarrow> ('y) cryptolib_scheme \<Rightarrow> bool" where
  "same_crypto H D \<longleftrightarrow> AesEnc H = AesEnc D \<and> AesDec H = AesDec D \<and> Sha256 H = Sha256 D"

lemma keystream_same: "same_crypto H D \<Longrightarrow> keystream H key iv n = keystream D key iv n"
  by (simp add: keystream_def same_crypto_def)

lemma XORKeyStream_same: "same_crypto H D \<Longrightarrow> XORKeyStream H key iv m = XORKeyStream D key iv m"
  unfolding XORKeyStream_def by (simp add: keystream_same)

lemma hmac_same: "same_crypto H D \<Longrightarrow> hmac_sha256 H key m = hmac_sha256 D key m"
  by (simp add: hmac_sha256_def hmac_block_key_def same_crypto_def)

lemma encryptCTR_same:
  assumes "same_crypto H D"
  shows "encryptCTR H key iv m = encryptCTR D key iv m"
  unfolding encryptCTR_def XORKeyStream_same [OF assms] hmac_same [OF assms] ..

lemma bundle_encrypt_ok:
  assumes "bundle_encrypt H path d s = Some ((out, None), s')"
  obtains m key iv where "ReadFile H path = (m, None)" "16 \<le> length m"
    "deriveKey H d (replicate 16 0) = (key, None)" "ReadRandom H s 16 = ((iv, None), s')"
    "encryptCTR H key iv m = Some (out, None)"
  using assms
  by (auto simp: bundle_encrypt_def Let_def Encrypt_stub_def split: prod.splits if_splits)

lemma bundle_unwraps:
  assumes "cipher_ok D" and "same_crypto H D"
    and "fst (DeriveKey D d kdf_iv (-1)) = fst (deriveKey H d (replicate 16 0))"
    and "snd (DeriveKey D d kdf_iv (-1)) = None"
    and "bundle_encrypt H path d s = Some ((out, None), s')"
  shows "\<exists>m. ReadFile H path = (m, None) \<and> Decrypt_imx6 D out d = Some (m, None)"
  using assms(5)
proof (cases rule: bundle_encrypt_ok)
  case (1 m key iv)
  then have key: "DeriveKey D d kdf_iv (-1) = (key, None)"
    using assms(3,4) by (cases "DeriveKey D d kdf_iv (-1)") simp
  have enc: "encryptCTR D key iv m = Some (out, None)"
    using 1(5) encryptCTR_same [OF assms(2)] by simp
  then have cipher: "NewCipher key = None" and iv: "length iv = 16"
    by (auto simp: encryptCTR_def split: option.splits if_splits)
  then have "ctr_usable (D, key)"
    using assms(1) by (simp add: ctr_usable_def)
  moreover have "out = ctr_seal (D, key) iv m"
    using enc by (simp add: ctr_seal_def)
  ultimately have "Decrypt_imx6 D out d = Some (m, None)"
    using Decrypt_imx6_unseal [OF key] ctr.unseal_seal iv by blast
  then show ?thesis
    using 1(1) by blast
qed

text \<open>
  What the bundler wraps, the device unwraps: if the kernel on the build machine and the DCP
  on the device derive the same key for a diversifier, every key file the bundler encrypts
  decrypts on the device to the contents of the file.
\<close>

theorem bundle_device_roundtrip:
  assumes "cipher_ok D" and "same_crypto H D"
    and "fst (DeriveKey D d kdf_iv (-1)) = fst (deriveKey H d (replicate 16 0))"
    and "snd (DeriveKey D d kdf_iv (-1)) = None"
    and "bundle_encrypt H path d s = Some ((out, None), s')"
  shows "\<exists>m. ReadFile H path = (m, None) \<and> Decrypt_imx6 D out d = Some (m, None)"
  using assms by (rule bundle_unwraps)

lemma bundle_private_wraps:
  assumes "bundle_private H True env d s1 = Some (k, s2)" and "k \<noteq> []"
  shows "\<exists>s1 s2. bundle_encrypt H (Getenv H env) d s1 = Some ((k, None), s2)"
  using assms by (auto simp: bundle_private_def split: if_splits option.splits prod.splits)

lemma bundle_main_Some:
  assumes "bundle_main H s = Some settings" and "Getenv H ''SNVS'' \<noteq> []"
  shows "\<exists>sshPub ssh s1 pgp s2 u2fPub u2f s3.
    bundle_private H True ''SSH_PRIVATE_KEY'' DiversifierSSH s = Some (ssh, s1) \<and>
    bundle_private H True ''PGP_SECRET_KEY'' DiversifierPGP s1 = Some (pgp, s2) \<and>
    bundle_private H True ''U2F_PRIVATE_KEY'' DiversifierU2F s2 = Some (u2f, s3) \<and>
    settings = bundle_settings H sshPub ssh pgp u2fPub u2f"
  using assms
  by (fastforce simp: bundle_main_def Let_def bind_eq_Some_conv split: if_splits)

lemma mem_bytes_setting:
  "(var, SetBytes k) \<in> set (bytes_setting var' k') \<longleftrightarrow> var = var' \<and> k = k' \<and> k' \<noteq> []"
  by (auto simp: bytes_setting_def)

text \<open>
  C20. With \<^verbatim>\<open>SNVS\<close> set no private key is bundled in the clear: every private-key assignment
  the bundler writes is the output of the wrapping routine under that key's own diversifier. And
  the firmware decrypts at boot unless the variable asks for SSH-only unlocking.
\<close>

theorem bundle_wraps_private_keys:
  assumes "bundle_main H s = Some settings" and "Getenv H ''SNVS'' \<noteq> []"
  shows "(\<forall>k. (''sshPrivateKey'', SetBytes k) \<in> set settings \<longrightarrow>
      (\<exists>s1 s2. bundle_encrypt H (Getenv H ''SSH_PRIVATE_KEY'') DiversifierSSH s1 = Some ((k, None), s2))) \<and>
    (\<forall>k. (''pgpSecretKey'', SetBytes k) \<in> set settings \<longrightarrow>
      (\<exists>s1 s2. bundle_encrypt H (Getenv H ''PGP_SECRET_KEY'') DiversifierPGP s1 = Some ((k, None), s2))) \<and>
    (\<forall>k. (''u2fPrivateKey'', SetBytes k) \<in> set settings \<longrightarrow>
      (\<exists>s1 s2. bundle_encrypt H (Getenv H ''U2F_PRIVATE_KEY'') DiversifierU2F s1 = Some ((k, None), s2))) \<and>
    (''SNVS'', SetBool True) \<in> set settings \<and>
    (''initAtBoot'', SetBool (Getenv H ''SNVS'' \<noteq> ''ssh'')) \<in> set settings"
proof -
  obtain sshPub ssh s1 pgp s2 u2fPub u2f s3 where
    keys: "bundle_private H True ''SSH_PRIVATE_KEY'' DiversifierSSH s = Some (ssh, s1)"
      "bundle_private H True ''PGP_SECRET_KEY'' DiversifierPGP s1 = Some (pgp, s2)"
      "bundle_private H True ''U2F_PRIVATE_KEY'' DiversifierU2F s2 = Some (u2f, s3)"
    and settings: "settings = bundle_settings H sshPub ssh pgp u2fPub u2f"
    using bundle_main_Some [OF assms] by blast
  show ?thesis
    using bundle_private_wraps [OF keys(1)] bundle_private_wraps [OF keys(2)]
      bundle_private_wraps [OF keys(3)] assms(2)
    unfolding settings by (simp add: bundle_settings_def mem_bytes_setting)
qed

definition sample_host :: hostlib where
  "sample_host = cryptolib.extend demo_crypto
     \<lparr>Getenv = (\<lambda>v. if v = ''SNVS'' then ''1'' else if v = ''PGP_SECRET_KEY'' then ''key.asc'' else []),
      ReadFile = (\<lambda>p. (replicate 20 9, None)), ReadRandom = (\<lambda>s n. ((replicate n (of_nat s), None), Suc s)),
      AlgSocket = None, AlgBind = (\<lambda>t n. None), AlgSetKey = (\<lambda>k. None), AlgSendmsg = (\<lambda>c i. None),
      AlgRead = (\<lambda>c i. (replicate 16 5, None)), CreateFile = None\<rparr>"

lemma sample_host_simps [simp]:
  "Getenv sample_host v = (if v = ''SNVS'' then ''1'' else if v = ''PGP_SECRET_KEY'' then ''key.asc'' else [])"
  "ReadFile sample_host p = (replicate 20 9, None)"
  "ReadRandom sample_host s n = ((replicate n (of_nat s), None), Suc s)" "CreateFile sample_host = None"
  by (simp_all add: sample_host_def cryptolib.defs)

lemma sample_host_key: "length d = 16 \<or> d = str_bytes ''test'' \<Longrightarrow>
    deriveKey sample_host d (replicate 16 0) = (replicate 16 5, None)"
  by (auto simp: deriveKey_def cryptoAPI_def sample_host_def cryptolib.defs Pad_def Let_def str_bytes_def)

lemma sample_host_encrypt:
  assumes "length d = 16"
  shows "\<exists>out. bundle_encrypt sample_host path d s = Some ((out, None), Suc s) \<and> out \<noteq> []"
  using sample_host_key [of d] assms by (simp add: bundle_encrypt_def Encrypt_stub_def encryptCTR_ok)

theorem bundle_device_roundtrip_witness:
  "\<exists>out. bundle_encrypt sample_host ''key.asc'' DiversifierPGP 3 = Some ((out, None), 4) \<and>
     Decrypt_imx6 demo_dev out DiversifierPGP = Some (replicate 20 9, None)"
proof -
  have len: "length DiversifierPGP = 16"
    by (simp add: DiversifierPGP_def str_bytes_def)
  obtain out where "bundle_encrypt sample_host ''key.asc'' DiversifierPGP 3 = Some ((out, None), 4)"
    using sample_host_encrypt [OF len, of "''key.asc''" 3] by auto
  moreover have "same_crypto sample_host demo_dev"
    by (simp add: same_crypto_def sample_host_def demo_dev_def cryptolib.defs)
  ultimately show ?thesis
    using bundle_device_roundtrip [OF demo_dev_ok, of sample_host DiversifierPGP "''key.asc''" 3 out 4]
      sample_host_key [of DiversifierPGP] len
    by simp
qed

theorem bundle_wraps_private_keys_witness:
  "\<exists>settings k s1 s2. bundle_main sample_host 0 = Some settings \<and>
     (''pgpSecretKey'', SetBytes k) \<in> set settings \<and>
     bundle_encrypt sample_host ''key.asc'' DiversifierPGP s1 = Some ((k, None), s2)"
proof -
  have len: "length DiversifierPGP = 16"
    by (simp add: DiversifierPGP_def str_bytes_def)
  obtain k where k: "bundle_encrypt sample_host ''key.asc'' DiversifierPGP 0 = Some ((k, None), Suc 0)" "k \<noteq> []"
    using sample_host_encrypt [OF len] by blast
  then obtain settings where main: "bundle_main sample_host 0 = Some settings"
    and mem: "(''pgpSecretKey'', SetBytes k) \<in> set settings"
    using sample_host_key [of "str_bytes ''test''"]
    by (simp add: bundle_main_def bundle_public_def bundle_private_def bundle_settings_def bytes_setting_def)
  show ?thesis
    using bundle_wraps_private_keys [OF main] main mem by fastforce
qed

end
