(* ===== verification/Ccid.thy ===== *)
theory Ccid
  imports CardInit
begin

text \<open>
  The CCID smart card reader, \<^verbatim>\<open>src/internal/ccid\<close>: the message structs as records that
  extend a common header, their little-endian encoding by \<^verbatim>\<open>encoding/binary\<close>, the command
  handlers and the dispatcher \<^verbatim>\<open>Rx\<close>. The package is built for the 32-bit ARM target, so
  \<^verbatim>\<open>int\<close> has 32 bits; that matters in \<^verbatim>\<open>Data\<close>.

  \<open>ccid_command\<close> is the contract of the interface \<^verbatim>\<open>CCIDCommand\<close>: an answer carries the
  slot and sequence number of its request and announces exactly the data that follows it.
\<close>

section \<open>Messages\<close>

record ccid_msg =
  m_MessageType :: byte
  m_Length :: u32
  m_Slot :: byte
  m_Seq :: byte

record IccPowerOn = ccid_msg +
  po_PowerSelect :: byte
  po_RFU :: "byte \<times> byte"

record rfu3_msg = ccid_msg +
  m_RFU :: "byte \<times> byte \<times> byte"

text \<open>\<^verbatim>\<open>IccPowerOff\<close>, \<^verbatim>\<open>GetSlotStatus\<close> and \<^verbatim>\<open>GetParameters\<close> have the same fields.\<close>

type_synonym IccPowerOff = rfu3_msg
type_synonym GetSlotStatus = rfu3_msg
type_synonym GetParameters = rfu3_msg

record XfrBlock = ccid_msg +
  xb_BWI :: byte
  xb_LevelParameter :: u16

record DataBlock = ccid_msg +
  db_Status :: byte
  db_Error :: byte
  db_ChainParameter :: byte

record SlotStatus = ccid_msg +
  ss_Status :: byte
  ss_Error :: byte
  ss_ClockStatus :: byte

record Parameters = ccid_msg +
  pa_Status :: byte
  pa_Error :: byte
  pa_ProtocolNum :: byte

section \<open>buf.go and binary.Read\<close>

definition put_msg :: "('x) ccid_msg_scheme \<Rightarrow> bytes" where
  "put_msg m = [m_MessageType m] @ le_put32 (m_Length m) @ [m_Slot m, m_Seq m]"

fun get_msg :: "bytes \<Rightarrow> (ccid_msg \<times> bytes) option" where
  "get_msg (t # l0 # l1 # l2 # l3 # slot # sq # rest) =
     Some (\<lparr>m_MessageType = t, m_Length = join32 l0 l1 l2 l3, m_Slot = slot, m_Seq = sq\<rparr>, rest)"
| "get_msg _ = None"

text \<open>\<^verbatim>\<open>Serialize\<close> of each response struct; writing to a buffer cannot fail.\<close>

definition Serialize_DataBlock :: "DataBlock \<Rightarrow> bytes" where
  "Serialize_DataBlock m = put_msg m @ [db_Status m, db_Error m, db_ChainParameter m]"

definition Serialize_SlotStatus :: "SlotStatus \<Rightarrow> bytes" where
  "Serialize_SlotStatus m = put_msg m @ [ss_Status m, ss_Error m, ss_ClockStatus m]"

definition Serialize_Parameters :: "Parameters \<Rightarrow> bytes" where
  "Serialize_Parameters m = put_msg m @ [pa_Status m, pa_Error m, pa_ProtocolNum m]"

text \<open>\<^verbatim>\<open>binary.Read\<close> into each request struct; \<^term>\<open>None\<close> when the buffer is too short.\<close>

fun read_IccPowerOn :: "bytes \<Rightarrow> IccPowerOn option" where
  "read_IccPowerOn buf =
     (case get_msg buf of
        Some (h, sel # r0 # r1 # _) \<Rightarrow> Some (ccid_msg.extend h (IccPowerOn.fields sel (r0, r1)))
      | _ \<Rightarrow> None)"

fun read_rfu3_msg :: "bytes \<Rightarrow> rfu3_msg option" where
  "read_rfu3_msg buf =
     (case get_msg buf of
        Some (h, r0 # r1 # r2 # _) \<Rightarrow> Some (ccid_msg.extend h (rfu3_msg.fields (r0, r1, r2)))
      | _ \<Rightarrow> None)"

fun read_XfrBlock :: "bytes \<Rightarrow> XfrBlock option" where
  "read_XfrBlock buf =
     (case get_msg buf of
        Some (h, bwi # l0 # l1 # _) \<Rightarrow> Some (ccid_msg.extend h (XfrBlock.fields bwi (join16 l0 l1)))
      | _ \<Rightarrow> None)"

text \<open>
  \<^verbatim>\<open>Data\<close>: the last \<^verbatim>\<open>length\<close> bytes of the message. The subtraction and the sign test are
  those of a 32-bit \<^verbatim>\<open>int\<close>, the slice expression panics beyond the end.
\<close>

definition Data :: "bytes \<Rightarrow> u32 \<Rightarrow> bytes option" where
  "Data buf len =
     (if len = 0 then Some []
      else
        let off = (of_nat (length buf) :: u32) - len
        in if sint off > 0 then slice_from buf (unat off) else Some [])"

section \<open>Handlers\<close>

abbreviation (input) DATA_BLOCK :: byte where "DATA_BLOCK \<equiv> 0x80"
abbreviation (input) SLOT_STATUS :: byte where "SLOT_STATUS \<equiv> 0x81"
abbreviation (input) PARAMETERS :: byte where "PARAMETERS \<equiv> 0x82"
abbreviation (input) ICC_PRESENT_AND_ACTIVE :: byte where "ICC_PRESENT_AND_ACTIVE \<equiv> 0"
abbreviation (input) FAILED :: byte where "FAILED \<equiv> 0x40"
abbreviation (input) BAD_LEVEL_PARAMETER :: byte where "BAD_LEVEL_PARAMETER \<equiv> 8"

definition IccPowerOn_Handle :: "IccPowerOn \<Rightarrow> card \<Rightarrow> bytes \<times> goerr option" where
  "IccPowerOn_Handle cmd c =
     (let atr = card_ATR c;
          res = \<lparr>m_MessageType = DATA_BLOCK, m_Length = of_nat (length atr), m_Slot = m_Slot cmd,
            m_Seq = m_Seq cmd, db_Status = 0, db_Error = 0, db_ChainParameter = 0\<rparr>
      in (Serialize_DataBlock res @ atr, None))"

definition IccPowerOff_Handle :: "IccPowerOff \<Rightarrow> bytes \<times> goerr option" where
  "IccPowerOff_Handle cmd =
     (Serialize_SlotStatus
        \<lparr>m_MessageType = SLOT_STATUS, m_Length = 0, m_Slot = m_Slot cmd, m_Seq = m_Seq cmd,
         ss_Status = 0, ss_Error = 0, ss_ClockStatus = 0\<rparr>, None)"

definition GetSlotStatus_Handle :: "GetSlotStatus \<Rightarrow> bytes \<times> goerr option" where
  "GetSlotStatus_Handle cmd =
     (Serialize_SlotStatus
        \<lparr>m_MessageType = SLOT_STATUS, m_Length = 0, m_Slot = m_Slot cmd, m_Seq = m_Seq cmd,
         ss_Status = ICC_PRESENT_AND_ACTIVE, ss_Error = 0, ss_ClockStatus = 0\<rparr>, None)"

definition GetParameters_Handle :: "GetParameters \<Rightarrow> bytes \<times> goerr option" where
  "GetParameters_Handle cmd =
     (Serialize_Parameters
        \<lparr>m_MessageType = PARAMETERS, m_Length = 0, m_Slot = m_Slot cmd, m_Seq = m_Seq cmd,
         pa_Status = ICC_PRESENT_AND_ACTIVE, pa_Error = 0, pa_ProtocolNum = 0x01\<rparr>, None)"

definition XfrBlock_Handle ::
    "('x) pgplib_scheme \<Rightarrow> XfrBlock \<Rightarrow> bytes \<Rightarrow> card \<Rightarrow> ((bytes \<times> goerr option) \<times> card) option" where
  "XfrBlock_Handle L cmd buf c =
     (let res = \<lparr>m_MessageType = DATA_BLOCK, m_Length = 0, m_Slot = m_Slot cmd, m_Seq = m_Seq cmd,
            db_Status = 0, db_Error = 0, db_ChainParameter = 0\<rparr>
      in if xb_LevelParameter cmd \<noteq> 0 then
           Some ((Serialize_DataBlock (res\<lparr>db_Status := FAILED, db_Error := BAD_LEVEL_PARAMETER\<rparr>), None), c)
         else
           do {
             apdu \<leftarrow> Data buf (m_Length cmd);
             ((resData, err), c') \<leftarrow> RawCommand L apdu c;
             Some (case err of
                     Some e \<Rightarrow> ([], Some e)
                   | None \<Rightarrow>
                       (Serialize_DataBlock (res\<lparr>m_Length := of_nat (length resData)\<rparr>) @ resData, None),
                   c')
           })"

section \<open>Rx\<close>

abbreviation (input) ICC_POWER_ON :: byte where "ICC_POWER_ON \<equiv> 0x62"
abbreviation (input) ICC_POWER_OFF :: byte where "ICC_POWER_OFF \<equiv> 0x63"
abbreviation (input) GET_SLOT_STATUS :: byte where "GET_SLOT_STATUS \<equiv> 0x65"
abbreviation (input) XFR_BLOCK :: byte where "XFR_BLOCK \<equiv> 0x6f"
abbreviation (input) GET_PARAMETERS :: byte where "GET_PARAMETERS \<equiv> 0x6c"
abbreviation (input) RESET_PARAMETERS :: byte where "RESET_PARAMETERS \<equiv> 0x6d"
abbreviation (input) SET_PARAMETERS :: byte where "SET_PARAMETERS \<equiv> 0x61"

text \<open>Reading the request struct and running its handler.\<close>

definition ccid_read_handle ::
    "'m option \<Rightarrow> ('m \<Rightarrow> card \<Rightarrow> ((bytes \<times> goerr option) \<times> card) option) \<Rightarrow> card \<Rightarrow>
     ((bytes \<times> goerr option) \<times> card) option" where
  "ccid_read_handle msg h c =
     (case msg of None \<Rightarrow> Some (([], Some UnexpectedEOF), c) | Some cmd \<Rightarrow> h cmd c)"

definition Rx ::
    "('x) pgplib_scheme \<Rightarrow> bytes \<Rightarrow> card \<Rightarrow> ((bytes \<times> goerr option) \<times> card) option" where
  "Rx L buf c =
     (if length buf = 0 then Some (([], Some (GoErr ''invalid CCID command, too short'')), c)
      else
        let c1 = (if buf ! 0 \<noteq> GET_SLOT_STATUS then Wake c else c)
        in if buf ! 0 = ICC_POWER_ON then
             ccid_read_handle (read_IccPowerOn buf) (\<lambda>cmd c. Some (IccPowerOn_Handle cmd c, c)) c1
           else if buf ! 0 = ICC_POWER_OFF then
             ccid_read_handle (read_rfu3_msg buf) (\<lambda>cmd c. Some (IccPowerOff_Handle cmd, c)) c1
           else if buf ! 0 = GET_SLOT_STATUS then
             ccid_read_handle (read_rfu3_msg buf) (\<lambda>cmd c. Some (GetSlotStatus_Handle cmd, c)) c1
           else if buf ! 0 = XFR_BLOCK then
             ccid_read_handle (read_XfrBlock buf) (\<lambda>cmd. XfrBlock_Handle L cmd buf) c1
           else if buf ! 0 \<in> {GET_PARAMETERS, RESET_PARAMETERS, SET_PARAMETERS} then
             ccid_read_handle (read_rfu3_msg buf) (\<lambda>cmd c. Some (GetParameters_Handle cmd, c)) c1
           else Some (([], Some (GoErr (''invalid CCID command, unsupported: '' @ fmt_x buf))), c1))"

section \<open>The host's side of the encoding\<close>

text \<open>
  What the host writes for an XfrBlock request, and how it reads the common part and a DataBlock
  of the answer.
\<close>

definition put_XfrBlock :: "XfrBlock \<Rightarrow> bytes" where
  "put_XfrBlock m = put_msg m @ [xb_BWI m] @ le_put16 (xb_LevelParameter m)"

fun get_DataBlock :: "bytes \<Rightarrow> DataBlock option" where
  "get_DataBlock buf =
     (case get_msg buf of
        Some (h, st # er # ch # _) \<Rightarrow> Some (ccid_msg.extend h (DataBlock.fields st er ch))
      | _ \<Rightarrow> None)"

declare read_XfrBlock.simps [simp del] get_DataBlock.simps [simp del] read_IccPowerOn.simps [simp del]
  read_rfu3_msg.simps [simp del]

lemma length_put_msg [simp]: "length (put_msg m) = 7"
  by (simp add: put_msg_def)

lemma get_put_msg [simp]: "get_msg (put_msg m @ rest) = Some (ccid_msg.truncate m, rest)"
  by (simp add: put_msg_def le_put32_def ccid_msg.defs)

lemma get_msg_Some:
  assumes "get_msg buf = Some (h, rest)"
  shows "buf = put_msg h @ rest"
  using assms by (cases buf rule: get_msg.cases) (auto simp: put_msg_def le_put32_def)

lemma get_msg_None: "get_msg buf = None \<longleftrightarrow> length buf < 7"
  by (cases buf rule: get_msg.cases) auto

text \<open>A read of ten bytes is a header and three more.\<close>

lemma get_msg_10:
  assumes "10 \<le> length buf"
  obtains h a b d rest where "buf = put_msg h @ a # b # d # rest" "get_msg buf = Some (h, a # b # d # rest)"
proof -
  obtain h rest where get: "get_msg buf = Some (h, rest)"
    using assms get_msg_None [of buf] by (cases "get_msg buf") auto
  note buf = get_msg_Some [OF get]
  then have "3 \<le> length rest"
    using assms by simp
  then obtain a b d r where "rest = a # b # d # r"
    by (metis Suc_le_length_iff numeral_3_eq_3)
  with buf get show ?thesis
    by (intro that) auto
qed

lemma get_msg_short:
  assumes "get_msg buf = Some (h, a # b # d # rest)"
  shows "10 \<le> length buf"
  using get_msg_Some [OF assms] by simp

interpretation xfr_block: fixed_codec 10 put_XfrBlock read_XfrBlock
proof
  fix xs :: bytes
  show "read_XfrBlock (put_XfrBlock x @ ys) = Some x" for x ys
    by (simp add: put_XfrBlock_def read_XfrBlock.simps le_put16_def ccid_msg.defs XfrBlock.defs)
  show "length xs < 10 \<Longrightarrow> read_XfrBlock xs = None"
    by (auto simp: read_XfrBlock.simps split: option.splits list.splits dest: get_msg_short)
  show "read_XfrBlock xs = Some x \<Longrightarrow> put_XfrBlock x = take 10 xs" for x
    by (auto simp: read_XfrBlock.simps put_XfrBlock_def put_msg_def le_put16_def ccid_msg.defs
        XfrBlock.defs split: option.splits list.splits dest!: get_msg_Some)
  show "10 \<le> length xs \<Longrightarrow> \<exists>x. read_XfrBlock xs = Some x"
    by (auto elim!: get_msg_10 simp: read_XfrBlock.simps)
qed (simp add: put_XfrBlock_def)

interpretation data_block: fixed_codec 10 Serialize_DataBlock get_DataBlock
proof
  fix xs :: bytes
  show "get_DataBlock (Serialize_DataBlock x @ ys) = Some x" for x ys
    by (simp add: Serialize_DataBlock_def get_DataBlock.simps ccid_msg.defs DataBlock.defs)
  show "length xs < 10 \<Longrightarrow> get_DataBlock xs = None"
    by (auto simp: get_DataBlock.simps split: option.splits list.splits dest: get_msg_short)
  show "get_DataBlock xs = Some x \<Longrightarrow> Serialize_DataBlock x = take 10 xs" for x
    by (auto simp: get_DataBlock.simps Serialize_DataBlock_def put_msg_def ccid_msg.defs
        DataBlock.defs split: option.splits list.splits dest!: get_msg_Some)
  show "10 \<le> length xs \<Longrightarrow> \<exists>x. get_DataBlock xs = Some x"
    by (auto elim!: get_msg_10 simp: get_DataBlock.simps)
qed (simp add: Serialize_DataBlock_def)

section \<open>Extracting the APDU\<close>

lemma sign_32:
  fixes u :: int
  assumes "0 \<le> u" and "u < 2 ^ 32"
  shows "(u + 2 ^ 31) mod 2 ^ 32 - 2 ^ 31 > 0 \<longleftrightarrow> 0 < u \<and> u < 2 ^ 31"
proof (cases "u < 2 ^ 31")
  case True
  then have "(u + 2 ^ 31) mod 2 ^ 32 = u + 2 ^ 31"
    using assms by (intro mod_pos_pos_trivial) auto
  with True show ?thesis by simp
next
  case False
  have "(u + 2 ^ 31) mod 2 ^ 32 = (u + 2 ^ 31 - 2 ^ 32) mod 2 ^ 32"
    by (rule minus_mod_self2 [symmetric])
  also have "\<dots> = u + 2 ^ 31 - 2 ^ 32"
    using assms False by (intro mod_pos_pos_trivial) auto
  finally show ?thesis
    using assms False by simp
qed

lemma sint_positive: "sint (w :: u32) > 0 \<longleftrightarrow> 0 < unat w \<and> unat w < 2 ^ 31"
proof -
  have "sint w = (uint w + 2 ^ 31) mod 2 ^ 32 - 2 ^ 31"
    using int_word_sint [of "uint w", where ?'a = 32] by simp
  moreover have "0 \<le> uint w" "uint w < 2 ^ 32"
    using uint_bounded [of w] by simp_all
  ultimately have "sint w > 0 \<longleftrightarrow> 0 < uint w \<and> uint w < 2 ^ 31"
    using sign_32 by simp
  then show ?thesis
    unfolding uint_nat by (simp del: of_nat_unat)
qed

text \<open>\<^verbatim>\<open>Data\<close> by the value of the length field, for messages a 32-bit machine can hold.\<close>

lemma Data_cases:
  assumes "length buf < 2 ^ 31"
  shows "Data buf len =
    (if len = 0 then Some []
     else if unat len < length buf then Some (drop (length buf - unat len) buf)
     else if unat len \<le> length buf + 2 ^ 31 then Some []
     else None)"
proof -
  let ?n = "length buf" and ?l = "unat len"
  define off where "off = (of_nat ?n :: u32) - len"
  have l: "?l < 2 ^ 32"
    using unsigned_less [of len, where ?'a = nat] by simp
  have n: "unat (of_nat ?n :: u32) = ?n"
    using assms by (simp add: unat_of_nat)
  have off: "unat off = (if ?l \<le> ?n then ?n - ?l else 2 ^ 32 + ?n - ?l)"
    using assms l n unfolding off_def by (auto simp: unat_sub_if')
  have "Data buf len = (if len = 0 then Some []
      else if 0 < unat off \<and> unat off < 2 ^ 31 then slice_from buf (unat off) else Some [])"
    by (simp add: Data_def off_def sint_positive Let_def)
  then show ?thesis
    unfolding off slice_from_def using l assms by auto
qed

section \<open>The contract of a CCID command\<close>

text \<open>The headers the readers return are those of the message.\<close>

lemma read_header:
  "read_XfrBlock buf = Some m \<Longrightarrow> \<exists>h rest. get_msg buf = Some (h, rest) \<and> m_Slot h = m_Slot m \<and> m_Seq h = m_Seq m"
  "read_IccPowerOn buf = Some p \<Longrightarrow> \<exists>h rest. get_msg buf = Some (h, rest) \<and> m_Slot h = m_Slot p \<and> m_Seq h = m_Seq p"
  "read_rfu3_msg buf = Some r \<Longrightarrow> \<exists>h rest. get_msg buf = Some (h, rest) \<and> m_Slot h = m_Slot r \<and> m_Seq h = m_Seq r"
  by (auto simp: read_XfrBlock.simps read_IccPowerOn.simps read_rfu3_msg.simps ccid_msg.defs
      XfrBlock.defs IccPowerOn.defs rfu3_msg.defs split: option.splits list.splits)

text \<open>
  \<open>answers h res\<close>: \<open>res\<close> is a response to a request with header \<open>h\<close>, ten bytes
  followed by as much data as its length field says.
\<close>

definition answers :: "byte \<Rightarrow> byte \<Rightarrow> bytes \<Rightarrow> bool" where
  "answers slot sq res \<longleftrightarrow>
     (\<exists>h rest. get_msg res = Some (h, rest) \<and> m_Slot h = slot \<and> m_Seq h = sq \<and>
        3 \<le> length rest \<and> m_Length h = of_nat (length rest - 3))"

lemma answers_put [simp]:
  "answers slot sq (put_msg m @ a # b # d # payload) \<longleftrightarrow>
     m_Slot m = slot \<and> m_Seq m = sq \<and> m_Length m = of_nat (length payload)"
  by (auto simp: answers_def ccid_msg.defs)

locale ccid_command =
  fixes handle :: "('x) pgplib_scheme \<Rightarrow> 'm \<Rightarrow> bytes \<Rightarrow> card \<Rightarrow> ((bytes \<times> goerr option) \<times> card) option"
    and slot_of :: "'m \<Rightarrow> byte"
    and seq_of :: "'m \<Rightarrow> byte"
  assumes handle_answers: "handle L m buf c = Some ((res, None), c') \<Longrightarrow> answers (slot_of m) (seq_of m) res"
    and handle_fails: "handle L m buf c = Some ((res, Some e), c') \<Longrightarrow> res = []"
    and handle_card: "handle L m buf c = Some (r, c') \<Longrightarrow>
      c' = c \<or> (\<exists>n r'. n \<le> length buf \<and> RawCommand L (drop n buf) c = Some (r', c'))"
begin

lemma read_handle_answers:
  assumes "ccid_read_handle msg (\<lambda>m. handle L m buf) c = Some ((res, None), c')"
  shows "\<exists>m. msg = Some m \<and> answers (slot_of m) (seq_of m) res"
  using assms by (auto simp: ccid_read_handle_def dest: handle_answers split: option.splits)

lemma read_handle_fails:
  assumes "ccid_read_handle msg (\<lambda>m. handle L m buf) c = Some ((res, Some e), c')"
  shows "res = []"
  using assms by (auto simp: ccid_read_handle_def dest: handle_fails split: option.splits)

lemma read_handle_card:
  assumes "ccid_read_handle msg (\<lambda>m. handle L m buf) c = Some (r, c')"
  shows "c' = c \<or> (\<exists>n r'. n \<le> length buf \<and> RawCommand L (drop n buf) c = Some (r', c'))"
  using assms by (auto simp: ccid_read_handle_def dest: handle_card split: option.splits)

end

interpretation power_on: ccid_command "\<lambda>L m buf c. Some (IccPowerOn_Handle m c, c)" m_Slot m_Seq
  by unfold_locales (auto simp: IccPowerOn_Handle_def Let_def Serialize_DataBlock_def)

interpretation power_off: ccid_command "\<lambda>L m buf c. Some (IccPowerOff_Handle m, c)" m_Slot m_Seq
  by unfold_locales (auto simp: IccPowerOff_Handle_def Serialize_SlotStatus_def)

interpretation slot_status: ccid_command "\<lambda>L m buf c. Some (GetSlotStatus_Handle m, c)" m_Slot m_Seq
  by unfold_locales (auto simp: GetSlotStatus_Handle_def Serialize_SlotStatus_def)

interpretation parameters: ccid_command "\<lambda>L m buf c. Some (GetParameters_Handle m, c)" m_Slot m_Seq
  by unfold_locales (auto simp: GetParameters_Handle_def Serialize_Parameters_def)

lemma Data_suffix: "Data buf len = Some apdu \<Longrightarrow> \<exists>n \<le> length buf. apdu = drop n buf"
  by (auto simp: Data_def slice_from_def Let_def split: if_splits intro: exI [of _ "length buf"])

interpretation xfr: ccid_command XfrBlock_Handle m_Slot m_Seq
proof
  fix L :: "('x) pgplib_scheme" and m buf c res c' e r
  show "answers (m_Slot m) (m_Seq m) res" if "XfrBlock_Handle L m buf c = Some ((res, None), c')"
    using that
    by (auto simp: XfrBlock_Handle_def Let_def Serialize_DataBlock_def bind_eq_Some_conv
        split: if_splits option.splits)
  show "res = []" if "XfrBlock_Handle L m buf c = Some ((res, Some e), c')"
    using that by (auto simp: XfrBlock_Handle_def Let_def bind_eq_Some_conv split: if_splits option.splits)
  show "c' = c \<or> (\<exists>n r'. n \<le> length buf \<and> RawCommand L (drop n buf) c = Some (r', c'))"
    if "XfrBlock_Handle L m buf c = Some (r, c')"
    using that by (auto simp: XfrBlock_Handle_def Let_def bind_eq_Some_conv split: if_splits dest!: Data_suffix)
qed

section \<open>The reader keeps the card's contract\<close>

lemma Wake_quiet [simp]: "quiet_step c (Wake c)"
  by (rule same_keys_quiet) (simp_all add: Wake_def same_keys_def card_identity_def power_ok_def)

lemma sleep_timeout_quiet [simp]: "quiet_step c (sleep_timeout c)"
  by (rule same_keys_quiet) (simp_all add: sleep_timeout_def same_keys_def card_identity_def power_ok_def)

text \<open>The card a request is handled on: awake, unless it only asks for the slot status.\<close>

definition awakened :: "bytes \<Rightarrow> card \<Rightarrow> card" where
  "awakened buf c = (if buf \<noteq> [] \<and> buf ! 0 \<noteq> GET_SLOT_STATUS then Wake c else c)"

lemma awakened_quiet [simp]: "quiet_step c (awakened buf c)"
  by (simp add: awakened_def)

lemma Rx_cases:
  assumes "Rx L buf c = Some (r, c')"
  obtains e where "r = ([], Some e)" "c' = awakened buf c"
  | "ccid_read_handle (read_IccPowerOn buf) (\<lambda>cmd c. Some (IccPowerOn_Handle cmd c, c)) (awakened buf c) = Some (r, c')"
  | "ccid_read_handle (read_rfu3_msg buf) (\<lambda>cmd c. Some (IccPowerOff_Handle cmd, c)) (awakened buf c) = Some (r, c')"
  | "ccid_read_handle (read_rfu3_msg buf) (\<lambda>cmd c. Some (GetSlotStatus_Handle cmd, c)) (awakened buf c) = Some (r, c')"
  | "ccid_read_handle (read_XfrBlock buf) (\<lambda>cmd. XfrBlock_Handle L cmd buf) (awakened buf c) = Some (r, c')"
  | "ccid_read_handle (read_rfu3_msg buf) (\<lambda>cmd c. Some (GetParameters_Handle cmd, c)) (awakened buf c) = Some (r, c')"
  using assms by (auto simp: Rx_def awakened_def Let_def split: if_splits)

lemma Rx_card:
  assumes "Rx L buf c = Some (r, c')"
  shows "c' = awakened buf c \<or>
    (\<exists>n r'. n \<le> length buf \<and> RawCommand L (drop n buf) (awakened buf c) = Some (r', c'))"
  using assms
  by (rule Rx_cases) (auto dest: power_on.read_handle_card [where L = L and buf = buf]
      power_off.read_handle_card [where L = L and buf = buf] slot_status.read_handle_card [where L = L and buf = buf]
      xfr.read_handle_card parameters.read_handle_card [where L = L and buf = buf])

interpretation ccid_rx: card_handler Rx
proof
  fix L :: "('x) pgplib_scheme" and buf c r c' sk
  assume run: "Rx L buf c = Some (r, c')"
  note awake = quiet_stepD [OF awakened_quiet [of c buf]]
  show "card_identity c' = card_identity c"
    using Rx_card [OF run] awake(1) raw_command.identity by metis
  show "card_inv c'" if "pgp_ok L" "card_inv c"
    using Rx_card [OF run] awake(2) raw_command.inv that by metis
  show "led_ok c'" if "led_ok c"
    using Rx_card [OF run] awake(3) raw_command.led that by metis
  show "c_errorCounterPW1 c' = 0" if "c_errorCounterPW1 c = 0"
    using Rx_card [OF run] awake(4) raw_command.blocked that by metis
  show "power_ok c'" if "power_ok c"
    using Rx_card [OF run] awake(7) raw_command.power that by metis
  show "slot_locked c' sk" if inv: "card_inv c" and zero: "c_errorCounterPW1 c = 0"
    and sk: "sk \<in> {c_Sig c, c_Dec c}" and locked: "slot_locked c sk"
  proof -
    have "card_inv (awakened buf c)" "c_errorCounterPW1 (awakened buf c) = 0"
      "sk \<in> {c_Sig (awakened buf c), c_Dec (awakened buf c)}" "slot_locked (awakened buf c) sk"
      using awake(2) [OF inv] awake(4) awake(5) [OF inv sk locked] zero sk card_identityD [OF awake(1)]
      by auto
    then show ?thesis
      using Rx_card [OF run] raw_command.blocked_locked by blast
  qed
qed

section \<open>Properties\<close>

lemma Rx_ok:
  assumes "Rx L buf c = Some ((res, None), c')"
  shows "\<exists>h rest. get_msg buf = Some (h, rest) \<and> answers (m_Slot h) (m_Seq h) res"
  using assms
  by (rule Rx_cases)
    (auto dest!: power_on.read_handle_answers power_off.read_handle_answers
      slot_status.read_handle_answers xfr.read_handle_answers parameters.read_handle_answers
      dest!: read_header)

lemma Rx_error:
  assumes "Rx L buf c = Some ((res, Some e), c')"
  shows "res = []"
  using assms
  by (rule Rx_cases)
    (auto dest: power_on.read_handle_fails power_off.read_handle_fails
      slot_status.read_handle_fails xfr.read_handle_fails parameters.read_handle_fails)

text \<open>
  C26. Every response the reader sends belongs to its request: same slot and sequence number, and
  a length field that announces exactly the bytes that follow the ten-byte header. A request that
  fails produces no response bytes.
\<close>

theorem Rx_answers:
  assumes "Rx L buf c = Some ((res, err), c')"
  shows "case err of
      None \<Rightarrow> \<exists>h rest. get_msg buf = Some (h, rest) \<and> answers (m_Slot h) (m_Seq h) res
    | Some e \<Rightarrow> res = []"
  using assms Rx_ok Rx_error by (cases err) auto

theorem Rx_answers_witness:
  "\<exists>res. Rx sample_lib [0x65, 0, 0, 0, 0, 3, 7, 0, 0, 0] sample_card = Some ((res, None), sample_card) \<and>
     answers 3 7 res"
proof -
  have "\<exists>res. Rx sample_lib [0x65, 0, 0, 0, 0, 3, 7, 0, 0, 0] sample_card = Some ((res, None), sample_card)"
    by (simp add: Rx_def ccid_read_handle_def read_rfu3_msg.simps GetSlotStatus_Handle_def)
  then show ?thesis
    using Rx_answers [of sample_lib "[0x65, 0, 0, 0, 0, 3, 7, 0, 0, 0]" sample_card] by fastforce
qed

text \<open>
  C25. A well-formed APDU exchange: the host's XfrBlock with the APDU is answered by a DataBlock
  it can decode, with its own slot and sequence number, followed by exactly what the card
  returns for that APDU.
\<close>

theorem Rx_exchange:
  assumes "m_MessageType m = XFR_BLOCK" and "xb_LevelParameter m = 0"
    and "m_Length m = of_nat (length apdu)" and "length apdu < 2 ^ 31 - 10"
    and "RawCommand L apdu (Wake c) = Some ((data, None), c')"
  shows "\<exists>res db. Rx L (put_XfrBlock m @ apdu) c = Some ((res, None), c') \<and>
    get_DataBlock res = Some db \<and> drop 10 res = data \<and> m_MessageType db = DATA_BLOCK \<and>
    m_Slot db = m_Slot m \<and> m_Seq db = m_Seq m \<and> m_Length db = of_nat (length data) \<and>
    db_Status db = 0 \<and> db_Error db = 0"
proof -
  let ?buf = "put_XfrBlock m @ apdu"
  let ?db = "\<lparr>m_MessageType = DATA_BLOCK, m_Length = of_nat (length data), m_Slot = m_Slot m,
    m_Seq = m_Seq m, db_Status = 0, db_Error = 0, db_ChainParameter = 0\<rparr>"
  have len: "length ?buf = 10 + length apdu"
    by (simp add: xfr_block.length_enc)
  have "unat (m_Length m) = length apdu"
    using assms(3,4) by (simp add: unat_of_nat)
  then have "Data ?buf (m_Length m) = Some apdu"
    using assms(4) len by (subst Data_cases) (auto simp: xfr_block.length_enc unat_eq_zero [symmetric])
  moreover have "?buf ! 0 = XFR_BLOCK" "?buf \<noteq> []"
    using assms(1) by (simp_all add: put_XfrBlock_def put_msg_def)
  ultimately have "Rx L ?buf c = Some ((Serialize_DataBlock ?db @ data, None), c')"
    using assms(2,5)
    by (simp add: Rx_def ccid_read_handle_def xfr_block.dec_enc XfrBlock_Handle_def Let_def)
  then show ?thesis
    by (simp add: data_block.dec_enc data_block.length_enc)
qed

text \<open>
  A length field beyond the signed range of the 32-bit \<^verbatim>\<open>int\<close> panics the firmware: an
  XfrBlock header that claims more than \<^verbatim>\<open>2^31\<close> bytes more than the message has makes
  \<^verbatim>\<open>Data\<close> slice past its end.
\<close>

theorem Rx_length_panics:
  assumes "m_MessageType m = XFR_BLOCK" and "xb_LevelParameter m = 0"
    and "length apdu < 2 ^ 31 - 10" and "10 + length apdu + 2 ^ 31 < unat (m_Length m)"
  shows "Rx L (put_XfrBlock m @ apdu) c = None"
proof -
  let ?buf = "put_XfrBlock m @ apdu"
  have "Data ?buf (m_Length m) = None"
    using assms(3,4) by (subst Data_cases) (auto simp: xfr_block.length_enc)
  moreover have "?buf ! 0 = XFR_BLOCK" "?buf \<noteq> []"
    using assms(1) by (simp_all add: put_XfrBlock_def put_msg_def)
  ultimately show ?thesis
    using assms(2)
    by (simp add: Rx_def ccid_read_handle_def xfr_block.dec_enc XfrBlock_Handle_def Let_def)
qed

definition sample_xfr :: "u32 \<Rightarrow> XfrBlock" where
  "sample_xfr n = \<lparr>m_MessageType = XFR_BLOCK, m_Length = n, m_Slot = 0, m_Seq = 5, xb_BWI = 0,
     xb_LevelParameter = 0\<rparr>"

theorem Rx_exchange_witness:
  "\<exists>res db c'. Rx sample_lib (put_XfrBlock (sample_xfr 4) @ [1, 0, 0, 0]) sample_card = Some ((res, None), c') \<and>
     get_DataBlock res = Some db \<and> drop 10 res = [0x69, 0x86] \<and> m_Seq db = 5"
proof -
  have "RawCommand sample_lib [1, 0, 0, 0] (Wake sample_card) = Some (([0x69, 0x86], None), Wake sample_card)"
    by (simp add: RawCommand_def sample_Unmarshal_def Command_def)
  then show ?thesis
    using Rx_exchange [of "sample_xfr 4" "[1, 0, 0, 0]" sample_lib sample_card]
    by (simp add: sample_xfr_def) metis
qed

theorem Rx_length_panics_witness:
  "Rx sample_lib (put_XfrBlock (sample_xfr 0xffffffff) @ [1, 0, 0, 0]) sample_card = None"
  by (rule Rx_length_panics) (simp_all add: sample_xfr_def)

section \<open>Waking and sleeping\<close>

inductive power_step :: "card \<Rightarrow> card \<Rightarrow> bool" where
  wake: "power_step c (Wake c)"
| timeout: "0 < c_sleep_timers c \<Longrightarrow> power_step c (sleep_timeout c)"

inductive_cases power_stepE: "power_step c c'"

text \<open>
  Power management is consistent in every interleaving of wake-ups and timer expirations:
  full clock while awake, and one pending timer exactly while awake. So an awake card is always
  going to be put to sleep, and timers do not pile up.
\<close>

theorem power_invariant:
  assumes "power_step\<^sup>*\<^sup>* c c'" and "power_ok c"
  shows "power_ok c'"
  using assms
  by (induction rule: rtranclp_induct)
    (auto elim!: power_stepE simp: power_ok_def Wake_def sleep_timeout_def split: if_splits)

theorem power_invariant_witness:
  "power_step\<^sup>*\<^sup>* sample_card (sleep_timeout (Wake sample_card)) \<and>
   power_ok (sleep_timeout (Wake sample_card))"
proof -
  have ok: "power_ok sample_card"
    by (simp add: power_ok_def sample_card_def blank_card_def)
  have "power_step sample_card (Wake sample_card)"
    by (rule power_step.wake)
  moreover have "power_step (Wake sample_card) (sleep_timeout (Wake sample_card))"
    by (rule power_step.timeout) (simp add: Wake_def sample_card_def blank_card_def)
  ultimately have run: "power_step\<^sup>*\<^sup>* sample_card (sleep_timeout (Wake sample_card))"
    by simp
  show ?thesis
    using run power_invariant [OF run ok] by simp
qed

end
