(* ===== verification/UsbCcid.thy ===== *)
theory UsbCcid
  imports Ccid
begin

text \<open>
  The USB endpoint functions of the smart card interface, \<^verbatim>\<open>CCIDRx\<close> and \<^verbatim>\<open>CCIDTx\<close> of
  \<^verbatim>\<open>src/internal/usb/smartcard.go\<close>. They meet at an unbuffered channel: \<^verbatim>\<open>CCIDRx\<close> blocks
  until its response is taken, \<^verbatim>\<open>CCIDTx\<close> polls. \<open>u_queue\<close> is the response a blocked
  \<^verbatim>\<open>CCIDRx\<close> is offering; while there is one the OUT endpoint does not run again, which is
  the guard of the step relation \<open>usb_step\<close>.
\<close>

section \<open>The code\<close>

record usb =
  u_card :: card
  u_queue :: "bytes option"

definition CCIDTx :: "usb \<Rightarrow> bytes \<times> usb" where
  "CCIDTx u =
     (case u_queue u of Some res \<Rightarrow> (res, u\<lparr>u_queue := None\<rparr>) | None \<Rightarrow> ([], u))"

definition CCIDRx :: "('x) pgplib_scheme \<Rightarrow> bytes \<Rightarrow> usb \<Rightarrow> (goerr option \<times> usb) option" where
  "CCIDRx L out u =
     do {
       ((inn, err), c') \<leftarrow> Rx L out (u_card u);
       Some (case err of
               Some e \<Rightarrow> (Some e, u\<lparr>u_card := c'\<rparr>)
             | None \<Rightarrow> (None, u\<lparr>u_card := c', u_queue := Some inn\<rparr>))
     }"

section \<open>Interleavings\<close>

datatype usb_event = Out bytes | In bytes

inductive usb_step :: "('x) pgplib_scheme \<Rightarrow> usb \<Rightarrow> usb_event \<Rightarrow> usb \<Rightarrow> bool" for L where
  rx: "u_queue u = None \<Longrightarrow> CCIDRx L out u = Some (err, u') \<Longrightarrow> usb_step L u (Out out) u'"
| tx: "CCIDTx u = (inn, u') \<Longrightarrow> usb_step L u (In inn) u'"

inductive_cases usb_step_OutE: "usb_step L u (Out out) u'"
inductive_cases usb_step_InE: "usb_step L u (In inn) u'"

inductive usb_run :: "('x) pgplib_scheme \<Rightarrow> usb \<Rightarrow> usb_event list \<Rightarrow> usb \<Rightarrow> bool" for L where
  nil: "usb_run L u [] u"
| snoc: "usb_run L u evs u1 \<Longrightarrow> usb_step L u1 ev u' \<Longrightarrow> usb_run L u (evs @ [ev]) u'"

text \<open>What the host sent and what it received; an empty transfer carries no response.\<close>

definition sent :: "usb_event list \<Rightarrow> bytes list" where
  "sent evs = List.map_filter (\<lambda>ev. case ev of Out out \<Rightarrow> Some out | In _ \<Rightarrow> None) evs"

definition received :: "usb_event list \<Rightarrow> bytes list" where
  "received evs =
     List.map_filter (\<lambda>ev. case ev of In inn \<Rightarrow> if inn = [] then None else Some inn | Out _ \<Rightarrow> None) evs"

text \<open>The responses among the results of a sequence of requests.\<close>

definition responses :: "(bytes \<times> goerr option) list \<Rightarrow> bytes list" where
  "responses rs = map fst (filter (\<lambda>(res, err). err = None) rs)"

definition pending :: "usb \<Rightarrow> bytes list" where
  "pending u = (case u_queue u of None \<Rightarrow> [] | Some res \<Rightarrow> [res])"

lemma event_lists [simp]:
  "sent [] = []" "sent (evs @ [Out out]) = sent evs @ [out]" "sent (evs @ [In inn]) = sent evs"
  "received [] = []" "received (evs @ [Out out]) = received evs"
  "received (evs @ [In inn]) = received evs @ (if inn = [] then [] else [inn])"
  by (simp_all add: sent_def received_def map_filter_def)

lemma responses_simps [simp]:
  "responses [] = []" "responses (rs @ [(res, None)]) = responses rs @ [res]"
  "responses (rs @ [(res, Some e)]) = responses rs"
  by (simp_all add: responses_def)

lemma run_seq_snoc:
  "run_seq f L (xs @ [x]) s = Some (rs, s2) \<longleftrightarrow>
     (\<exists>rs' s1 r. run_seq f L xs s = Some (rs', s1) \<and> f L x s1 = Some (r, s2) \<and> rs = rs' @ [r])"
  by (induction xs arbitrary: s rs) (auto simp: run_seq_Cons_Some simp del: run_seq.simps(2))

lemma answers_nonempty: "answers slot sq res \<Longrightarrow> res \<noteq> []"
  by (auto simp: answers_def)

lemma CCIDRx_cases:
  assumes "CCIDRx L out u = Some (err, u')"
  obtains e c' res where "Rx L out (u_card u) = Some ((res, Some e), c')" "u' = u\<lparr>u_card := c'\<rparr>"
  | res c' where "Rx L out (u_card u) = Some ((res, None), c')"
      "u' = u\<lparr>u_card := c', u_queue := Some res\<rparr>" "res \<noteq> []"
  using assms
  by (auto simp: CCIDRx_def bind_eq_Some_conv split: option.splits dest!: Rx_ok answers_nonempty)

lemma usb_run_queue: "usb_run L u evs u' \<Longrightarrow> u_queue u = None \<Longrightarrow> u_queue u' \<noteq> Some []"
proof (induction rule: usb_run.induct)
  case (snoc u evs u1 ev u')
  then show ?case
    by (cases ev) (auto elim!: usb_step_OutE usb_step_InE CCIDRx_cases simp: CCIDTx_def
        split: option.splits)
qed simp

lemma usb_run_seq:
  assumes "usb_run L u evs u'" and "u_queue u = None"
  shows "\<exists>rs. run_seq Rx L (sent evs) (u_card u) = Some (rs, u_card u') \<and>
    responses rs = received evs @ pending u'"
  using assms
proof induction
  case (nil u)
  then show ?case
    by (simp add: pending_def)
next
  case (snoc u evs u1 ev u')
  then obtain rs where rs: "run_seq Rx L (sent evs) (u_card u) = Some (rs, u_card u1)"
    "responses rs = received evs @ pending u1"
    by blast
  show ?case
  proof (cases ev)
    case (Out out)
    with snoc.hyps(2) obtain err where "u_queue u1 = None" "CCIDRx L out u1 = Some (err, u')"
      by (auto elim: usb_step_OutE)
    then show ?thesis
      using rs Out by (elim CCIDRx_cases) (auto simp: run_seq_snoc pending_def)
  next
    case (In inn)
    with snoc.hyps(2) have tx: "CCIDTx u1 = (inn, u')"
      by (auto elim: usb_step_InE)
    have "u_queue u1 \<noteq> Some []"
      using snoc.hyps(1) snoc.prems by (rule usb_run_queue)
    with tx show ?thesis using rs In by (auto simp: CCIDTx_def pending_def split: option.splits)
  qed
qed

section \<open>Properties\<close>

text \<open>
  C14. The endpoint pair delivers every response exactly once and in order: in each interleaving
  of OUT and IN transfers, what the host has received, followed by the response still on offer, is the
  sequence of responses the reader gives when it runs the host's requests one after another.
\<close>

theorem usb_exactly_once:
  assumes "usb_run L u evs u'" and "u_queue u = None"
  shows "\<exists>rs. run_seq Rx L (sent evs) (u_card u) = Some (rs, u_card u') \<and>
    responses rs = received evs @ pending u'"
  using assms by (rule usb_run_seq)

theorem usb_exactly_once_witness:
  "\<exists>u' rs res. usb_run sample_lib \<lparr>u_card = sample_card, u_queue = None\<rparr>
       [Out [0x65, 0, 0, 0, 0, 3, 7, 0, 0, 0], In res, In []] u' \<and>
     run_seq Rx sample_lib [[0x65, 0, 0, 0, 0, 3, 7, 0, 0, 0]] sample_card = Some (rs, u_card u') \<and>
     responses rs = [res]"
proof -
  let ?req = "[0x65, 0, 0, 0, 0, 3, 7, 0, 0, 0 :: byte]"
  let ?u = "\<lparr>u_card = sample_card, u_queue = None\<rparr>"
  obtain res where rx: "Rx sample_lib ?req sample_card = Some ((res, None), sample_card)"
    by (simp add: Rx_def ccid_read_handle_def read_rfu3_msg.simps GetSlotStatus_Handle_def)
  from rx have "usb_step sample_lib ?u (Out ?req) (?u\<lparr>u_queue := Some res\<rparr>)"
    by (intro usb_step.rx [where err = None]) (simp_all add: CCIDRx_def)
  moreover have "usb_step sample_lib (?u\<lparr>u_queue := Some res\<rparr>) (In res) ?u"
    "usb_step sample_lib ?u (In []) ?u"
    by (rule usb_step.tx, simp add: CCIDTx_def)+
  ultimately have run: "usb_run sample_lib ?u [Out ?req, In res, In []] ?u"
    using usb_run.snoc [OF usb_run.snoc [OF usb_run.snoc [OF usb_run.nil]]] by fastforce
  have "res \<noteq> []"
    using Rx_ok [OF rx] answers_nonempty by blast
  then have ev: "sent [Out ?req, In res, In []] = [?req]" "received [Out ?req, In res, In []] = [res]"
    by (simp_all add: sent_def received_def map_filter_def)
  obtain rs where "run_seq Rx sample_lib [?req] (u_card ?u) = Some (rs, u_card ?u)" "responses rs = [res]"
    using usb_exactly_once [OF run] unfolding ev by (auto simp: pending_def simp del: run_seq.simps)
  with run show ?thesis
    by (metis usb.select_convs(1))
qed

end
