(* ===== verification/Vpcd.thy ===== *)
theory Vpcd
  imports CardInit
begin

text \<open>
  The virtual smart card build, \<^verbatim>\<open>src/gokey_vpcd.go\<close>: the framing of the vpcd protocol
  over a TCP connection. A connection is the list of segments that will arrive; \<^verbatim>\<open>Read\<close>
  returns bytes of the first one only, as a socket does, and fails when none is left.
  \<^verbatim>\<open>log.Fatalf\<close> ends the process, which the model renders as \<^term>\<open>None\<close> like a panic.
  Writing is a parameter: \<open>werr res\<close> is the error of \<^verbatim>\<open>conn.Write(res)\<close>.
\<close>

section \<open>The connection\<close>

type_synonym conn = "bytes list"

text \<open>\<^verbatim>\<open>conn.Read(buf)\<close> for \<open>n = len(buf)\<close>: at least one byte, or the error.\<close>

fun conn_read :: "nat \<Rightarrow> conn \<Rightarrow> bytes option \<times> conn" where
  "conn_read n [] = (None, [])"
| "conn_read n ([] # segs) = conn_read n segs"
| "conn_read n ((b # bs) # segs) =
     (Some (take n (b # bs)), (if length (b # bs) \<le> n then segs else drop n (b # bs) # segs))"

text \<open>\<^verbatim>\<open>io.ReadAtLeast(conn, req, n)\<close>; its error is ignored, the missing bytes stay zero.\<close>

fun read_at_least :: "nat \<Rightarrow> conn \<Rightarrow> bytes \<times> conn" where
  "read_at_least n [] = ([], [])"
| "read_at_least n (seg # segs) =
     (if n < length seg then (take n seg, drop n seg # segs)
      else if n = length seg then (seg, segs)
      else let (bs, rest) = read_at_least (n - length seg) segs in (seg @ bs, rest))"

definition conn_size :: "conn \<Rightarrow> nat" where
  "conn_size conn = sum_list (map length conn)"

section \<open>Requests\<close>

abbreviation (input) POWER_OFF :: byte where "POWER_OFF \<equiv> 0x00"
abbreviation (input) POWER_ON :: byte where "POWER_ON \<equiv> 0x01"
abbreviation (input) RESET :: byte where "RESET \<equiv> 0x02"
abbreviation (input) GET_ATR :: byte where "GET_ATR \<equiv> 0x04"

definition vpcd_frame :: "bytes \<Rightarrow> bytes" where
  "vpcd_frame res = be_put16 (of_nat (length res)) @ res"

definition handleVPCDRequest ::
    "('x) pgplib_scheme \<Rightarrow> conn \<Rightarrow> bytes \<Rightarrow> card \<Rightarrow> ((bytes \<times> goerr option) \<times> conn \<times> card) option" where
  "handleVPCDRequest L conn len c =
     (if length len < 2
      then Some (([], Some (GoErr (''request too short ('' @ fmt_d (length len) @ '')''))), conn, c)
      else
        do {
          n \<leftarrow> be_uint16 (take 2 len);
          if n < 1
          then Some (([], Some (GoErr (''length too short ('' @ fmt_d (unat n) @ '')''))), conn, c)
          else
            let (got, conn') = read_at_least (unat n) conn;
                req = copy_into (replicate (unat n) 0) got
            in if n = 1 then
                 (if req ! 0 = POWER_OFF \<or> req ! 0 = POWER_ON \<or> req ! 0 = RESET
                  then Some (([], None), conn', c)
                  else if req ! 0 = GET_ATR then Some ((vpcd_frame (card_ATR c), None), conn', c)
                  else Some ((vpcd_frame [], None), conn', c))
               else
                 do {
                   ((res, err), c') \<leftarrow> RawCommand L req c;
                   Some (case err of
                           Some e \<Rightarrow> (res, Some e)
                         | None \<Rightarrow> (vpcd_frame res, None), conn', c')
                 }
        })"

text \<open>
  \<^verbatim>\<open>handleVPCDConnection\<close>: the responses written until the connection ends. A read into the two-byte
  buffer that returns one byte leaves the second one zero.
\<close>

lemma conn_read_size: "conn_read n conn = (Some bs, conn') \<Longrightarrow> 0 < n \<Longrightarrow> conn_size conn' < conn_size conn"
  by (induction n conn rule: conn_read.induct) (auto simp: conn_size_def split: if_splits)

lemma read_at_least_size: "read_at_least n conn = (bs, conn') \<Longrightarrow> conn_size conn' \<le> conn_size conn"
  by (induction n conn arbitrary: bs conn' rule: read_at_least.induct)
    (fastforce simp: conn_size_def split: if_splits prod.splits)+

lemma handleVPCDRequest_conn:
  "handleVPCDRequest L conn len c = Some (r, conn', c') \<Longrightarrow> conn_size conn' \<le> conn_size conn"
  by (auto simp: handleVPCDRequest_def bind_eq_Some_conv Let_def
      split: if_splits prod.splits dest: read_at_least_size)

function handleVPCDConnection ::
    "('x) pgplib_scheme \<Rightarrow> (bytes \<Rightarrow> goerr option) \<Rightarrow> conn \<Rightarrow> card \<Rightarrow> (bytes list \<times> card) option" where
  "handleVPCDConnection L werr conn c =
     (case conn_read 2 conn of
        (None, _) \<Rightarrow> Some ([], c)
      | (Some got, conn1) \<Rightarrow>
          (case handleVPCDRequest L conn1 (copy_into (replicate 2 0) got) c of
             None \<Rightarrow> None
           | Some ((_, Some err), _, _) \<Rightarrow> None
           | Some ((res, None), conn2, c') \<Rightarrow>
               (case werr res of
                  Some _ \<Rightarrow> Some ([], c')
                | None \<Rightarrow>
                    (case handleVPCDConnection L werr conn2 c' of
                       None \<Rightarrow> None
                     | Some (out, c'') \<Rightarrow> Some (res # out, c'')))))"
  by pat_completeness auto
termination
  by (relation "measure (\<lambda>(L, werr, conn, c). conn_size conn)")
    (auto dest!: conn_read_size [OF sym] handleVPCDRequest_conn)

declare handleVPCDConnection.simps [simp del]

section \<open>Properties\<close>

lemma vpcd_request:
  assumes "2 \<le> length req" and "length req \<le> 0xffff"
    and "RawCommand L req c = Some ((res, None), c')"
  shows "handleVPCDRequest L (req # segs) (be_put16 (of_nat (length req))) c =
    Some ((vpcd_frame res, None), segs, c')"
proof -
  let ?n = "of_nat (length req) :: u16"
  have n: "unat ?n = length req"
    using assms(2) by (simp add: unat_of_nat)
  then have "\<not> ?n < 1" "?n \<noteq> 1"
    using assms(1) by (auto simp: word_less_nat_alt)
  then show ?thesis
    using assms n by (simp add: handleVPCDRequest_def be16.dec_enc_exact Let_def del: be_uint16.simps)
qed

text \<open>
  What the loop does with its next request: it answers and goes on, it closes the connection because the answer
  cannot be written, or it ends the process because the request cannot be handled.
\<close>

definition frames :: "bytes list \<Rightarrow> conn" where
  "frames reqs = concat (map (\<lambda>req. [be_put16 (of_nat (length req)), req]) reqs)"

lemma frames_simps [simp]:
  "frames [] = []" "frames (req # reqs) = be_put16 (of_nat (length req)) # req # frames reqs"
  by (simp_all add: frames_def)

lemma read_prefix: "conn_read 2 (be_put16 n # segs) = (Some (be_put16 n), segs)"
  "copy_into (replicate 2 0) (be_put16 n) = be_put16 n"
proof -
  obtain a b where ab: "be_put16 n = [a, b]"
    by (simp add: be_put16_def)
  then show "conn_read 2 (be_put16 n # segs) = (Some (be_put16 n), segs)"
    by simp
  show "copy_into (replicate 2 0) (be_put16 n) = be_put16 n"
    by (rule copy_into_same_length) (simp add: ab)
qed

lemma vpcd_turn:
  assumes "2 \<le> length req" and "length req \<le> 0xffff" and "RawCommand L req c = Some ((res, None), c1)"
  shows "handleVPCDConnection L werr (frames (req # reqs) @ segs) c =
    (if werr (vpcd_frame res) \<noteq> None then Some ([], c1)
     else map_option (\<lambda>(out, c'). (vpcd_frame res # out, c')) (handleVPCDConnection L werr (frames reqs @ segs) c1))"
  using vpcd_request [OF assms, of "frames reqs @ segs"]
  by (subst handleVPCDConnection.simps) (auto simp: read_prefix split: option.split)



text \<open>As long as the answers can be written, what was asked so far is answered and the rest is served.\<close>

lemma vpcd_serves:
  assumes "\<forall>req \<in> set reqs. 2 \<le> length req \<and> length req \<le> 0xffff"
    and "run_seq RawCommand L reqs c = Some (rs, c1)" and "\<forall>(res, err) \<in> set rs. err = None \<and> werr (vpcd_frame res) = None"
  shows "handleVPCDConnection L werr (frames reqs @ segs) c =
    map_option (\<lambda>(out, c'). (map (vpcd_frame \<circ> fst) rs @ out, c')) (handleVPCDConnection L werr segs c1)"
  using assms
proof (induction reqs arbitrary: c rs)
  case Nil
  then show ?case
    by (simp add: option.map_ident)
next
  case (Cons req reqs)
  then obtain res c2 rs' where step: "RawCommand L req c = Some ((res, None), c2)"
    and rest: "run_seq RawCommand L reqs c2 = Some (rs', c1)" and rs: "rs = (res, None) # rs'"
    by (auto simp: run_seq_Cons_Some simp del: run_seq.simps(2))
  have "handleVPCDConnection L werr (frames reqs @ segs) c2 =
      map_option (\<lambda>(out, c'). (map (vpcd_frame \<circ> fst) rs' @ out, c')) (handleVPCDConnection L werr segs c1)"
    using Cons.prems(1,3) rs by (intro Cons.IH [OF _ rest]) auto
  then show ?case
    using vpcd_turn [OF _ _ step, of werr reqs segs] Cons.prems(1,3) rs
    by (cases "handleVPCDConnection L werr segs c1") auto
qed

lemma vpcd_runs:
  assumes "\<forall>req \<in> set reqs. 2 \<le> length req \<and> length req \<le> 0xffff"
    and "run_seq RawCommand L reqs c = Some (rs, c')" and "\<forall>(res, err) \<in> set rs. err = None"
  shows "handleVPCDConnection L (\<lambda>_. None)
      (concat (map (\<lambda>req. [be_put16 (of_nat (length req)), req]) reqs)) c =
    Some (map (vpcd_frame \<circ> fst) rs, c')"
  using vpcd_serves [OF assms(1,2), of "\<lambda>_. None" "[]"] assms(3)
  by (simp add: frames_def handleVPCDConnection.simps [of L "\<lambda>_. None" "[]"])

text \<open>
  The virtual reader runs the commands of a connection in order: when each request arrives
  with its length prefix in one segment and its data in the next, and the card answers all of
  them, the bytes written back are exactly the framed responses of running the commands one
  after another.
\<close>

theorem vpcd_runs_commands:
  assumes "\<forall>req \<in> set reqs. 2 \<le> length req \<and> length req \<le> 0xffff"
    and "run_seq RawCommand L reqs c = Some (rs, c')" and "\<forall>(res, err) \<in> set rs. err = None"
  shows "handleVPCDConnection L (\<lambda>_. None)
      (concat (map (\<lambda>req. [be_put16 (of_nat (length req)), req]) reqs)) c =
    Some (map (vpcd_frame \<circ> fst) rs, c')"
  using assms by (rule vpcd_runs)

theorem vpcd_runs_commands_witness:
  "handleVPCDConnection sample_lib (\<lambda>_. None) [[0, 4], [1, 0, 0, 0]] sample_card =
     Some ([[0, 2, 0x69, 0x86]], sample_card)"
proof -
  have "RawCommand sample_lib [1, 0, 0, 0] sample_card = Some (([0x69, 0x86], None), sample_card)"
    by (simp add: RawCommand_def sample_Unmarshal_def Command_def)
  then show ?thesis
    using vpcd_runs_commands [of "[[1, 0, 0, 0]]" sample_lib sample_card "[([0x69, 0x86], None)]" sample_card]
    by (simp add: vpcd_frame_def be_put16_def)
qed

text \<open>
  A length prefix that arrives split kills the virtual reader: the first byte alone is taken
  for the whole prefix, so for every request below 256 bytes the length reads as zero, which is
  fatal. Nothing after it is answered.
\<close>

theorem vpcd_split_prefix_fatal:
  "handleVPCDConnection L werr ([0] # segs) c = None"
  by (subst handleVPCDConnection.simps)
    (simp add: copy_into_def handleVPCDRequest_def numeral_2_eq_2 join16_def)



end
