(* ===== verification/Boot.thy ===== *)
theory Boot
  imports Bundle UsbCcid Vpcd
begin

text \<open>
  The firmware's start, \<^verbatim>\<open>src/gokey_imx6.go\<close>, on the build-time variables of
  \<^verbatim>\<open>src/keys.go\<close> as the file generated by the bundler sets them; and the start of the virtual
  card build, \<^verbatim>\<open>main\<close> of \<^verbatim>\<open>src/gokey_vpcd.go\<close>. The USB network package and the port
  controller are parameters (\<open>bootlib\<close>). \<^verbatim>\<open>log.Fatalf\<close> is \<^term>\<open>None\<close>, as a panic.
\<close>

section \<open>keys.go\<close>

record keys =
  k_SNVS :: bool
  k_initAtBoot :: bool
  k_sshPublicKey :: bytes
  k_sshPrivateKey :: bytes
  k_pgpSecretKey :: bytes
  k_URL :: string
  k_NAME :: string
  k_LANGUAGE :: string
  k_SEX :: string
  k_u2fPublicKey :: bytes
  k_u2fPrivateKey :: bytes

definition keys_zero :: keys where
  "keys_zero = \<lparr>k_SNVS = False, k_initAtBoot = False, k_sshPublicKey = [], k_sshPrivateKey = [],
     k_pgpSecretKey = [], k_URL = [], k_NAME = [], k_LANGUAGE = [], k_SEX = [],
     k_u2fPublicKey = [], k_u2fPrivateKey = []\<rparr>"

text \<open>The declared types, and the type of a generated assignment's right-hand side.\<close>

datatype gotype = TBool | TBytes | TString

fun setting_type :: "setting \<Rightarrow> gotype" where
  "setting_type (SetBool b) = TBool"
| "setting_type (SetBytes bs) = TBytes"
| "setting_type (SetString s) = TString"

definition keys_types :: "(string \<times> gotype) list" where
  "keys_types =
     [(''SNVS'', TBool), (''initAtBoot'', TBool), (''sshPublicKey'', TBytes), (''sshPrivateKey'', TBytes),
      (''pgpSecretKey'', TBytes), (''URL'', TString), (''NAME'', TString), (''LANGUAGE'', TString),
      (''SEX'', TString), (''u2fPublicKey'', TBytes), (''u2fPrivateKey'', TBytes)]"

text \<open>One assignment of the generated \<^verbatim>\<open>init\<close>; an ill-typed one would not compile.\<close>

fun assign :: "string \<times> setting \<Rightarrow> keys \<Rightarrow> keys option" where
  "assign (var, SetBool b) k =
     (if var = ''SNVS'' then Some (k\<lparr>k_SNVS := b\<rparr>)
      else if var = ''initAtBoot'' then Some (k\<lparr>k_initAtBoot := b\<rparr>) else None)"
| "assign (var, SetBytes bs) k =
     (if var = ''sshPublicKey'' then Some (k\<lparr>k_sshPublicKey := bs\<rparr>)
      else if var = ''sshPrivateKey'' then Some (k\<lparr>k_sshPrivateKey := bs\<rparr>)
      else if var = ''pgpSecretKey'' then Some (k\<lparr>k_pgpSecretKey := bs\<rparr>)
      else if var = ''u2fPublicKey'' then Some (k\<lparr>k_u2fPublicKey := bs\<rparr>)
      else if var = ''u2fPrivateKey'' then Some (k\<lparr>k_u2fPrivateKey := bs\<rparr>) else None)"
| "assign (var, SetString s) k =
     (if var = ''URL'' then Some (k\<lparr>k_URL := s\<rparr>)
      else if var = ''NAME'' then Some (k\<lparr>k_NAME := s\<rparr>)
      else if var = ''LANGUAGE'' then Some (k\<lparr>k_LANGUAGE := s\<rparr>)
      else if var = ''SEX'' then Some (k\<lparr>k_SEX := s\<rparr>) else None)"

fun generated_init :: "(string \<times> setting) list \<Rightarrow> keys \<Rightarrow> keys option" where
  "generated_init [] k = Some k"
| "generated_init (a # settings) k = do { k1 \<leftarrow> assign a k; generated_init settings k1 }"

section \<open>The device\<close>

datatype port_mode = NotAttached | Attached
datatype usb_port = USB1 | USB2

record bootlib = conslib +
  NetAdd :: "string \<Rightarrow> string \<Rightarrow> string \<Rightarrow> usbdev \<Rightarrow> goerr option \<times> usbdev"
  ListenErr :: "goerr option"
  FrontPortMode :: port_mode
  Banner :: string

text \<open>
  The running firmware. Card and token are shared by pointer between the reader and the console;
  the model keeps them in the console's record, which stands also when no console was started:
  then \<open>g_auth\<close>, the client check of the SSH server, is \<^term>\<open>None\<close>. \<open>g_ccid\<close> says
  whether the smart card endpoints were configured.
\<close>

record gokey =
  g_con :: console
  g_queue :: "bytes option"
  g_ccid :: bool
  g_auth :: "(bytes \<Rightarrow> bool) option"
  g_usb :: usbdev
  g_port :: usb_port

definition token_zero :: Token where
  "token_zero = \<lparr>t_SNVS = False, t_PublicKey = [], t_PrivateKey = [], t_Presence = None,
     t_keyring = None, t_counter = None, t_initialized = False\<rparr>"

definition plugin_zero :: Plugin where
  "plugin_zero = \<lparr>p_SNVS = False, p_plugin = False, p_initialized = False\<rparr>"

definition console_zero :: "card \<Rightarrow> Token \<Rightarrow> u2fhw \<Rightarrow> console" where
  "console_zero c t hw = \<lparr>co_AuthorizedKey = [], co_PrivateKey = [], co_card = c, co_token = t,
     co_plugin = plugin_zero, co_hw = hw, co_next_chan = 0, co_waiting = None, co_input = [],
     co_out = [], co_reset = False\<rparr>"

section \<open>gokey\_imx6.go\<close>

definition initCard ::
    "('x) bootlib_scheme \<Rightarrow> keys \<Rightarrow> usbdev \<Rightarrow> card \<Rightarrow> (card \<times> usbdev) option" where
  "initCard L k d c =
     do {
       let c1 = c\<lparr>c_SNVS := k_SNVS k, c_ArmoredKey := k_pgpSecretKey k, c_Name := k_NAME k,
             c_Language := k_LANGUAGE k, c_Sex := k_SEX k, c_URL := k_URL k, c_Debug := False\<rparr>;
       (_, c2) \<leftarrow> (if k_initAtBoot k then Init L c1 else Some (None, c1));
       d' \<leftarrow> ConfigureCCID L d;
       Some (c2, d')
     }"

definition initToken ::
    "('x) bootlib_scheme \<Rightarrow> keys \<Rightarrow> usbdev \<Rightarrow> Token \<Rightarrow> u2fhw \<Rightarrow> (Token \<times> usbdev \<times> u2fhw) option" where
  "initToken L k d t hw =
     do {
       (_, t1, d') \<leftarrow> Configure L (t\<lparr>t_SNVS := k_SNVS k, t_PublicKey := k_u2fPublicKey k,
                                t_PrivateKey := k_u2fPrivateKey k\<rparr>) d;
       (_, t2, hw') \<leftarrow> (if k_initAtBoot k then Token_Init L t1 hw else Some (None, t1, hw));
       Some (t2, d', hw')
     }"

abbreviation (input) deviceIP :: string where "deviceIP \<equiv> ''10.0.0.10''"
abbreviation (input) deviceMAC :: string where "deviceMAC \<equiv> ''1a:55:89:a2:69:41''"
abbreviation (input) hostMAC :: string where "hostMAC \<equiv> ''1a:55:89:a2:69:42''"

definition configureNetworking ::
    "('x) bootlib_scheme \<Rightarrow> keys \<Rightarrow> usbdev \<Rightarrow> console \<Rightarrow> (console \<times> (bytes \<Rightarrow> bool) \<times> usbdev) option" where
  "configureNetworking L k d con =
     (case NetAdd L deviceIP deviceMAC hostMAC d of
        (Some _, _) \<Rightarrow> None
      | (None, d') \<Rightarrow>
          if ListenErr L \<noteq> None then None
          else do {
            let (_, plugin) = Plugin_Init L (plugin_zero\<lparr>p_SNVS := k_SNVS k\<rparr>);
            (key, con') \<leftarrow> Start L (con\<lparr>co_AuthorizedKey := k_sshPublicKey k,
                                co_PrivateKey := k_sshPrivateKey k, co_plugin := plugin\<rparr>);
            auth \<leftarrow> start L key con';
            Some (con', auth, d')
          })"

definition serial_number :: "bytes \<Rightarrow> bytes" where
  "serial_number uid = copy_into (replicate 4 0) (take 4 (drop 4 uid))"

definition select_port :: "port_mode \<Rightarrow> usb_port" where
  "select_port mode = (if mode = NotAttached then USB2 else USB1)"

text \<open>
  \<^verbatim>\<open>main\<close> up to the interrupt handler that never returns; \<open>c\<close> is the card as allocated, with
  the clock at the speed \<^verbatim>\<open>init\<close> sets.
\<close>

definition gokey_main :: "('x) bootlib_scheme \<Rightarrow> keys \<Rightarrow> u2fhw \<Rightarrow> rng \<Rightarrow> gokey option" where
  "gokey_main L k hw s =
     do {
       let c0 = blank_card\<lparr>c_rng := s, c_freq_max := True, c_Serial := serial_number (UniqueID L)\<rparr>;
       let d0 = ConfigureDevice L (fmt_X (c_Serial c0)) blank_device;
       (if k_SNVS k \<and> \<not> SnvsAvailable L then None else Some ());
       (c1, d1) \<leftarrow> (if length (k_pgpSecretKey k) \<noteq> 0 then initCard L k d0 c0 else Some (c0, d0));
       (t1, d2, hw1) \<leftarrow>
         (if length (k_u2fPublicKey k) \<noteq> 0 \<and> length (k_u2fPrivateKey k) \<noteq> 0
          then initToken L k d1 token_zero hw else Some (token_zero, d1, hw));
       let con0 = console_zero c1 t1 hw1;
       (con1, auth, d3) \<leftarrow>
         (if length (k_sshPublicKey k) \<noteq> 0
          then map_option (\<lambda>(con, ok, d). (con, Some ok, d)) (configureNetworking L k d2 con0)
          else Some (con0, None, d2));
       Some \<lparr>g_con = con1, g_queue = None, g_ccid = (length (k_pgpSecretKey k) \<noteq> 0), g_auth = auth,
         g_usb = d3, g_port = select_port (FrontPortMode L)\<rparr>
     }"

section \<open>gokey\_vpcd.go\<close>

abbreviation (input) dummyUID :: bytes where "dummyUID \<equiv> [0xaa, 0xbb, 0xcc, 0xdd]"

definition vpcd_card :: "keys \<Rightarrow> rng \<Rightarrow> card" where
  "vpcd_card k s = blank_card\<lparr>c_rng := s, c_Serial := dummyUID, c_SNVS := k_SNVS k,
     c_ArmoredKey := k_pgpSecretKey k, c_Name := k_NAME k, c_Language := k_LANGUAGE k,
     c_Sex := k_SEX k, c_URL := k_URL k, c_Debug := True\<rparr>"

text \<open>The process after start: the error of \<^verbatim>\<open>Init\<close> is logged and ignored.\<close>

definition vpcd_main :: "('x) pgplib_scheme \<Rightarrow> keys \<Rightarrow> rng \<Rightarrow> card option" where
  "vpcd_main L k s = map_option snd (Init L (vpcd_card k s))"

text \<open>
  Then two endless loops run side by side: \<^verbatim>\<open>dialVPCD\<close> serves one reader connection after the
  other (an unreachable reader is retried, which changes nothing) and \<^verbatim>\<open>serveRPC\<close> serves
  PKCS\#11 clients.
\<close>

inductive vpcd_step :: "('x) rpclib_scheme \<Rightarrow> card \<Rightarrow> card \<Rightarrow> bool" for L where
  dial: "handleVPCDConnection L werr conn c = Some (out, c') \<Longrightarrow> vpcd_step L c c'"
| retry: "vpcd_step L c c"
| rpc: "ServeRPC L rw c = Some (err, c') \<Longrightarrow> vpcd_step L c c'"

inductive_cases vpcd_stepE: "vpcd_step L c c'"

section \<open>The generated file\<close>

lemma assign_typed: "(fst a, setting_type (snd a)) \<in> set keys_types \<Longrightarrow> \<exists>k'. assign a k = Some k'"
  by (cases "(a, k)" rule: assign.cases) (auto simp: keys_types_def)

lemma generated_init_typed:
  assumes "\<forall>a \<in> set settings. (fst a, setting_type (snd a)) \<in> set keys_types"
  shows "\<exists>k'. generated_init settings k = Some k'"
  using assms
proof (induction settings arbitrary: k)
  case (Cons a settings)
  then obtain k1 where "assign a k = Some k1"
    using assign_typed by fastforce
  with Cons show ?case
    by simp
qed simp

lemma generated_init_append:
  "generated_init (xs @ ys) k = do { k1 \<leftarrow> generated_init xs k; generated_init ys k1 }"
  by (induction xs arbitrary: k) (auto split: bind_splits)

lemma keys_types_mem:
  "(''SNVS'', TBool) \<in> set keys_types" "(''initAtBoot'', TBool) \<in> set keys_types"
  "(''sshPublicKey'', TBytes) \<in> set keys_types" "(''sshPrivateKey'', TBytes) \<in> set keys_types"
  "(''pgpSecretKey'', TBytes) \<in> set keys_types" "(''URL'', TString) \<in> set keys_types"
  "(''NAME'', TString) \<in> set keys_types" "(''LANGUAGE'', TString) \<in> set keys_types"
  "(''SEX'', TString) \<in> set keys_types" "(''u2fPublicKey'', TBytes) \<in> set keys_types"
  "(''u2fPrivateKey'', TBytes) \<in> set keys_types"
  unfolding keys_types_def by (simp_all only: list.set insert_iff simp_thms)

lemma bytes_setting_typed:
  assumes "(var, TBytes) \<in> set keys_types"
  shows "\<forall>a \<in> set (bytes_setting var key). (fst a, setting_type (snd a)) \<in> set keys_types"
  using assms by (simp add: bytes_setting_def)

lemma bundle_settings_typed:
  "\<forall>a \<in> set (bundle_settings H a1 a2 a3 a4 a5). (fst a, setting_type (snd a)) \<in> set keys_types"
  unfolding bundle_settings_def set_append ball_Un
  by (intro conjI bytes_setting_typed keys_types_mem) (auto simp: keys_types_mem split: if_splits)

lemma bundle_main_settings:
  assumes "bundle_main H s = Some settings"
  shows "\<exists>a1 a2 a3 a4 a5. settings = bundle_settings H a1 a2 a3 a4 a5"
  using assms by (fastforce simp: bundle_main_def Let_def bind_eq_Some_conv split: if_splits)

text \<open>The variables after the generated \<^verbatim>\<open>init\<close> has run.\<close>

lemma generated_bytes:
  "generated_init (bytes_setting ''sshPublicKey'' x) k = Some (k\<lparr>k_sshPublicKey := (if x = [] then k_sshPublicKey k else x)\<rparr>)"
  "generated_init (bytes_setting ''sshPrivateKey'' x) k = Some (k\<lparr>k_sshPrivateKey := (if x = [] then k_sshPrivateKey k else x)\<rparr>)"
  "generated_init (bytes_setting ''pgpSecretKey'' x) k = Some (k\<lparr>k_pgpSecretKey := (if x = [] then k_pgpSecretKey k else x)\<rparr>)"
  "generated_init (bytes_setting ''u2fPublicKey'' x) k = Some (k\<lparr>k_u2fPublicKey := (if x = [] then k_u2fPublicKey k else x)\<rparr>)"
  "generated_init (bytes_setting ''u2fPrivateKey'' x) k = Some (k\<lparr>k_u2fPrivateKey := (if x = [] then k_u2fPrivateKey k else x)\<rparr>)"
  by (simp_all add: bytes_setting_def)

lemma generated_SNVS:
  "generated_init (if b then [(''SNVS'', SetBool True)] else []) k = Some (k\<lparr>k_SNVS := b \<or> k_SNVS k\<rparr>)"
  by simp

lemma generated_info:
  "generated_init (if 0 < length x
      then [(''URL'', SetString u), (''NAME'', SetString n), (''LANGUAGE'', SetString l), (''SEX'', SetString y)]
      else []) k =
   Some (k\<lparr>k_URL := (if x = [] then k_URL k else u), k_NAME := (if x = [] then k_NAME k else n),
     k_LANGUAGE := (if x = [] then k_LANGUAGE k else l), k_SEX := (if x = [] then k_SEX k else y)\<rparr>)"
  by simp

lemma generated_keys:
  "\<exists>k. generated_init (bundle_settings H sshPub ssh pgp u2fPub u2f) keys_zero = Some k \<and>
     k_SNVS k = (Getenv H ''SNVS'' \<noteq> []) \<and> k_initAtBoot k = (Getenv H ''SNVS'' \<noteq> ''ssh'') \<and>
     k_sshPublicKey k = sshPub \<and> k_sshPrivateKey k = ssh \<and> k_pgpSecretKey k = pgp \<and>
     k_u2fPublicKey k = u2fPub \<and> k_u2fPrivateKey k = u2f"
proof -
  have "generated_init [(''initAtBoot'', SetBool b)] k = Some (k\<lparr>k_initAtBoot := b\<rparr>)" for b k
    by simp
  then show ?thesis
    unfolding bundle_settings_def generated_init_append generated_SNVS generated_info generated_bytes
    by (simp add: keys_zero_def)
qed

section \<open>Starting\<close>

lemma Start_card:
  assumes "Start L con = Some (key, con')"
  shows "\<exists>s. co_card con' = (co_card con)\<lparr>c_rng := s\<rparr>" and "co_reset con' = co_reset con"
    and "co_AuthorizedKey con' = co_AuthorizedKey con"
proof -
  have "(\<exists>s. co_card con' = (co_card con)\<lparr>c_rng := s\<rparr>) \<and> co_reset con' = co_reset con \<and>
      co_AuthorizedKey con' = co_AuthorizedKey con"
    using assms by (auto simp: Start_def Let_def bind_eq_Some_conv split: if_splits prod.splits
        intro: exI [of _ "c_rng (co_card con)"])
  then show "\<exists>s. co_card con' = (co_card con)\<lparr>c_rng := s\<rparr>" "co_reset con' = co_reset con"
    "co_AuthorizedKey con' = co_AuthorizedKey con" by auto
qed

lemma start_authorizes:
  assumes "start L key con = Some ok"
  shows "\<exists>pub. ParseAuthorizedKey L (co_AuthorizedKey con) = (pub, None) \<and> ok = (\<lambda>k. k = pub)"
  using assms by (auto simp: start_def split: prod.splits option.splits)

lemma configureNetworking_card:
  assumes "configureNetworking L k d con = Some (con', ok, d')"
  shows "\<exists>s. co_card con' = (co_card con)\<lparr>c_rng := s\<rparr>" and "co_reset con' = co_reset con"
    and "\<exists>pub. ParseAuthorizedKey L (k_sshPublicKey k) = (pub, None) \<and> ok = (\<lambda>k. k = pub)"
proof -
  obtain p key where st: "Start L (con\<lparr>co_AuthorizedKey := k_sshPublicKey k,
      co_PrivateKey := k_sshPrivateKey k, co_plugin := p\<rparr>) = Some (key, con')"
    and ok: "start L key con' = Some ok"
    using assms by (auto simp: configureNetworking_def Let_def bind_eq_Some_conv split: prod.splits option.splits if_splits)
  show "\<exists>s. co_card con' = (co_card con)\<lparr>c_rng := s\<rparr>" "co_reset con' = co_reset con"
    using Start_card(1,2) [OF st] by auto
  show "\<exists>pub. ParseAuthorizedKey L (k_sshPublicKey k) = (pub, None) \<and> ok = (\<lambda>k. k = pub)"
    using start_authorizes [OF ok] Start_card(3) [OF st] by auto
qed

lemma configureNetworking_usb:
  "configureNetworking L k d con = Some (con', ok, d') \<Longrightarrow> NetAdd L deviceIP deviceMAC hostMAC d = (None, d')"
  by (auto simp: configureNetworking_def Let_def bind_eq_Some_conv split: prod.splits option.splits if_splits)

text \<open>The last part of \<^verbatim>\<open>main\<close>, with and without a console.\<close>

lemma networking_result:
  assumes "(if length (k_sshPublicKey k) \<noteq> 0
      then map_option (\<lambda>(con, ok, d). (con, Some ok, d)) (configureNetworking L k d con0)
      else Some (con0, None, d)) = Some (con, auth, d')"
  shows "\<exists>s. co_card con = (co_card con0)\<lparr>c_rng := s\<rparr>" and "co_reset con = co_reset con0"
    and "\<forall>ok. auth = Some ok \<longrightarrow> k_sshPublicKey k \<noteq> [] \<and>
      (\<exists>pub. ParseAuthorizedKey L (k_sshPublicKey k) = (pub, None) \<and> ok = (\<lambda>k. k = pub))"
    and "k_sshPublicKey k = [] \<longrightarrow> d' = d"
    and "k_sshPublicKey k \<noteq> [] \<longrightarrow> NetAdd L deviceIP deviceMAC hostMAC d = (None, d')"
    and "auth = None \<longleftrightarrow> k_sshPublicKey k = []"
proof -
  consider (off) "k_sshPublicKey k = []" "con = con0" "auth = None" "d' = d"
    | (on) ok where "k_sshPublicKey k \<noteq> []" "configureNetworking L k d con0 = Some (con, ok, d')" "auth = Some ok"
    using assms by (auto split: if_splits)
  then have "(\<exists>s. co_card con = (co_card con0)\<lparr>c_rng := s\<rparr>) \<and> co_reset con = co_reset con0 \<and>
    (\<forall>ok. auth = Some ok \<longrightarrow> k_sshPublicKey k \<noteq> [] \<and>
      (\<exists>pub. ParseAuthorizedKey L (k_sshPublicKey k) = (pub, None) \<and> ok = (\<lambda>k. k = pub))) \<and>
    (k_sshPublicKey k = [] \<longrightarrow> d' = d) \<and> (k_sshPublicKey k \<noteq> [] \<longrightarrow> NetAdd L deviceIP deviceMAC hostMAC d = (None, d'))"
  proof cases
    case off
    moreover have "\<exists>s. co_card con0 = (co_card con0)\<lparr>c_rng := s\<rparr>"
      by (rule exI [of _ "c_rng (co_card con0)"]) simp
    ultimately show ?thesis
      by simp
  next
    case (on ok)
    show ?thesis
      using on(1,3) configureNetworking_card [OF on(2)] configureNetworking_usb [OF on(2)] by simp
  qed
  then show "\<exists>s. co_card con = (co_card con0)\<lparr>c_rng := s\<rparr>" "co_reset con = co_reset con0"
    "\<forall>ok. auth = Some ok \<longrightarrow> k_sshPublicKey k \<noteq> [] \<and>
      (\<exists>pub. ParseAuthorizedKey L (k_sshPublicKey k) = (pub, None) \<and> ok = (\<lambda>k. k = pub))"
    "k_sshPublicKey k = [] \<longrightarrow> d' = d" "k_sshPublicKey k \<noteq> [] \<longrightarrow> NetAdd L deviceIP deviceMAC hostMAC d = (None, d')"
    by blast+
  show "auth = None \<longleftrightarrow> k_sshPublicKey k = []"
    using assms by (auto split: if_splits)
qed

text \<open>The card as \<^verbatim>\<open>main\<close> allocates it and as \<^verbatim>\<open>initCard\<close> sets it up.\<close>

definition boot_card :: "('x) bootlib_scheme \<Rightarrow> rng \<Rightarrow> card" where
  "boot_card L s = blank_card\<lparr>c_rng := s, c_freq_max := True, c_Serial := serial_number (UniqueID L)\<rparr>"

definition keyed_card :: "keys \<Rightarrow> card \<Rightarrow> card" where
  "keyed_card k c = c\<lparr>c_SNVS := k_SNVS k, c_ArmoredKey := k_pgpSecretKey k, c_Name := k_NAME k,
     c_Language := k_LANGUAGE k, c_Sex := k_SEX k, c_URL := k_URL k, c_Debug := False\<rparr>"

lemma initCard_cases:
  assumes "initCard L k d c = Some (c', d')"
  obtains "\<not> k_initAtBoot k" "c' = keyed_card k c" "ConfigureCCID L d = Some d'"
  | err where "k_initAtBoot k" "Init L (keyed_card k c) = Some (err, c')" "ConfigureCCID L d = Some d'"
  using assms by (auto simp: initCard_def keyed_card_def Let_def bind_eq_Some_conv split: if_splits)

lemma gokey_main_cases:
  assumes "gokey_main L k hw s = Some g"
  obtains c1 d0 d1 t1 d2 hw1 s' where
    "d0 = ConfigureDevice L (fmt_X (serial_number (UniqueID L))) blank_device"
    "k_SNVS k \<longrightarrow> SnvsAvailable L"
    "(if k_pgpSecretKey k = [] then (c1, d1) = (boot_card L s, d0) else initCard L k d0 (boot_card L s) = Some (c1, d1))"
    "(if k_u2fPublicKey k = [] \<or> k_u2fPrivateKey k = [] then (t1, d2, hw1) = (token_zero, d1, hw)
      else initToken L k d1 token_zero hw = Some (t1, d2, hw1))"
    "co_card (g_con g) = c1\<lparr>c_rng := s'\<rparr>" "g_queue g = None" "\<not> co_reset (g_con g)"
    "g_ccid g \<longleftrightarrow> k_pgpSecretKey k \<noteq> []"
    "\<forall>ok. g_auth g = Some ok \<longrightarrow> k_sshPublicKey k \<noteq> [] \<and>
       (\<exists>pub. ParseAuthorizedKey L (k_sshPublicKey k) = (pub, None) \<and> ok = (\<lambda>k. k = pub))"
    "k_sshPublicKey k = [] \<longrightarrow> g_usb g = d2"
    "k_sshPublicKey k \<noteq> [] \<longrightarrow> NetAdd L deviceIP deviceMAC hostMAC d2 = (None, g_usb g)"
    "g_auth g = None \<longleftrightarrow> k_sshPublicKey k = []"
proof -
  let ?d0 = "ConfigureDevice L (fmt_X (serial_number (UniqueID L))) blank_device"
  have serial: "c_Serial (boot_card L s) = serial_number (UniqueID L)"
    by (simp add: boot_card_def)
  obtain c1 d1 t1 d2 hw1 con auth d3 where
    guard: "(if k_SNVS k \<and> \<not> SnvsAvailable L then None else Some ()) = Some ()"
    and card_eq: "(if length (k_pgpSecretKey k) \<noteq> 0 then initCard L k ?d0 (boot_card L s)
      else Some (boot_card L s, ?d0)) = Some (c1, d1)"
    and token_eq: "(if length (k_u2fPublicKey k) \<noteq> 0 \<and> length (k_u2fPrivateKey k) \<noteq> 0
      then initToken L k d1 token_zero hw else Some (token_zero, d1, hw)) = Some (t1, d2, hw1)"
    and net_eq: "(if length (k_sshPublicKey k) \<noteq> 0
      then map_option (\<lambda>(con, ok, d). (con, Some ok, d)) (configureNetworking L k d2 (console_zero c1 t1 hw1))
      else Some (console_zero c1 t1 hw1, None, d2)) = Some (con, auth, d3)"
    and g: "g = \<lparr>g_con = con, g_queue = None, g_ccid = (length (k_pgpSecretKey k) \<noteq> 0), g_auth = auth, g_usb = d3,
      g_port = select_port (FrontPortMode L)\<rparr>"
    using assms [unfolded gokey_main_def Let_def boot_card_def [symmetric] serial]
    by (auto simp: bind_eq_Some_conv split del: if_split)
  have snvs: "k_SNVS k \<longrightarrow> SnvsAvailable L"
    using guard by (auto split: if_splits)
  have card: "(if k_pgpSecretKey k = [] then (c1, d1) = (boot_card L s, ?d0)
      else initCard L k ?d0 (boot_card L s) = Some (c1, d1))"
    using card_eq by (auto split: if_splits)
  have token: "(if k_u2fPublicKey k = [] \<or> k_u2fPrivateKey k = [] then (t1, d2, hw1) = (token_zero, d1, hw)
      else initToken L k d1 token_zero hw = Some (t1, d2, hw1))"
    using token_eq by (auto split: if_splits)
  note net = networking_result [OF net_eq]
  have zero: "co_card (console_zero c1 t1 hw1) = c1" "co_reset (console_zero c1 t1 hw1) = False"
    by (simp_all add: console_zero_def)
  obtain s' where con: "co_card con = c1\<lparr>c_rng := s'\<rparr>"
    using net(1) unfolding zero by blast
  show ?thesis
    by (rule that [OF refl snvs card token, of s']) (use con net(2-6) in \<open>simp_all add: g zero\<close>)
qed

section \<open>The card after the start\<close>

text \<open>
  What is always true of the card of a running device: once initialized it satisfies the card's
  invariant and the status LED tells whether the signature or the decryption key is unlocked; before that
  no subkey is selected, no private key is cached and there are no tries.
\<close>

definition system_ok :: "card \<Rightarrow> bool" where
  "system_ok c \<longleftrightarrow> (if c_initialized c then card_inv c \<and> led_ok c else fresh c)"

lemma fresh_update [simp]:
  "fresh (c\<lparr>c_ArmoredKey := a\<rparr>) = fresh c" "fresh (c\<lparr>c_Key := e\<rparr>) = fresh c" "fresh (c\<lparr>c_rng := s\<rparr>) = fresh c"
  by (simp_all add: fresh_def)

lemma Init_failed:
  assumes "Init L c = Some (Some e, c')"
  shows "c_initialized c' = c_initialized c" and "fresh c \<Longrightarrow> fresh c'" and "c_initialized c \<Longrightarrow> c' = c"
  using assms
  by (auto simp: Init_def Let_def bind_eq_Some_conv split: if_splits option.splits prod.splits)

lemma Init_power:
  assumes "Init L c = Some (err, c')"
  shows "power_ok c' = power_ok c"
proof (rule power_ok_cong)
  have "card_power (load_entity e c1) = card_power c1" for e c1
    by (simp add: load_entity_def Let_def card_power_def split: prod.splits)
  then have load: "card_power ((load_entity e c1)\<lparr>c_errorCounterPW1 := n, c_initialized := b\<rparr>) = card_power c1"
    for e c1 n b
    by (simp add: card_power_def)
  have "card_power (c\<lparr>c_ArmoredKey := a\<rparr>) = card_power c" "card_power (c\<lparr>c_Key := k\<rparr>) = card_power c"
    "card_power (c\<lparr>c_ArmoredKey := a, c_Key := k\<rparr>) = card_power c" for a k
    by (simp_all add: card_power_def)
  then show "card_power c' = card_power c"
    using assms
    by (auto simp: Init_def Let_def bind_eq_Some_conv load frame_simps split: if_splits option.splits prod.splits)
qed

lemma Init_initializes: "Init L c = Some (None, c') \<Longrightarrow> c_initialized c'"
  by (erule Init_success) (simp add: signalVerificationStatus_def LED_def)

lemma Init_system_ok:
  assumes "Init L c = Some (err, c')" and "system_ok c"
    and "\<forall>armored ent. decodeArmoredKey L armored = (Some ent, None) \<longrightarrow> entity_ok ent"
  shows "system_ok c'"
proof (cases err)
  case None
  then have "\<not> c_initialized c"
    using assms(1) by (auto simp: Init_def split: if_splits)
  then show ?thesis
    using Init_ok [OF assms(1) [unfolded None] _ assms(3)] assms(2) by (simp add: system_ok_def)
next
  case (Some e)
  then show ?thesis
    using Init_failed [of L c e c'] assms(1,2) by (auto simp: system_ok_def split: if_splits)
qed

lemma system_ok_rng [simp]: "system_ok (c\<lparr>c_rng := s\<rparr>) = system_ok c"
proof -
  have "same_keys c (c\<lparr>c_rng := s\<rparr>)"
    by (simp add: same_keys_def)
  then show ?thesis
    using same_keys_inv [of c "c\<lparr>c_rng := s\<rparr>"] same_keys_slots [of c "c\<lparr>c_rng := s\<rparr>"]
    by (simp add: system_ok_def led_ok_def card_identity_def)
qed

lemma moves_system_ok:
  assumes "card_moves L c c'" and "pgp_ok L" and "system_ok c"
  shows "system_ok c'"
  using card_moves_identity [OF assms(1)] card_moves_inv [OF assms(1,2)] card_moves_led [OF assms(1)]
    card_moves_blocked [OF assms(1,2) fresh_inv] assms(3)
  by (auto simp: system_ok_def fresh_def dest: card_identityD split: if_splits)

lemma boot_card_fresh: "fresh (boot_card L s)" "fresh (keyed_card k c) = fresh c"
  by (simp_all add: boot_card_def keyed_card_def fresh_def blank_card_def)

lemma boot_system_ok:
  assumes "gokey_main L k hw s = Some g"
    and "\<forall>armored ent. decodeArmoredKey L armored = (Some ent, None) \<longrightarrow> entity_ok ent"
  shows "system_ok (co_card (g_con g))"
  using assms(1)
proof (cases rule: gokey_main_cases)
  case (1 c1 d0 d1 t1 d2 hw1 s')
  have fresh: "system_ok c" if "fresh c" for c
    using that by (simp add: system_ok_def fresh_def)
  have "system_ok c1"
  proof (cases "k_pgpSecretKey k = []")
    case True
    then show ?thesis
      using 1(3) fresh [OF boot_card_fresh(1) [of L s]] by simp
  next
    case False
    then have "initCard L k d0 (boot_card L s) = Some (c1, d1)"
      using 1(3) by simp
    then show ?thesis
    proof (cases rule: initCard_cases)
      case 1
      then show ?thesis
        using fresh by (simp add: boot_card_fresh)
    next
      case (2 err)
      then show ?thesis
        using Init_system_ok [OF _ fresh assms(2)] boot_card_fresh by blast
    qed
  qed
  then show ?thesis
    using 1(5) by simp
qed

lemma boot_power_ok:
  assumes "gokey_main L k hw s = Some g"
  shows "power_ok (co_card (g_con g))"
  using assms
proof (cases rule: gokey_main_cases)
  case (1 c1 d0 d1 t1 d2 hw1 s')
  have boot: "power_ok (boot_card L s)" "power_ok (keyed_card k (boot_card L s))"
    by (simp_all add: boot_card_def keyed_card_def power_ok_def blank_card_def)
  have "power_ok c1"
  proof (cases "k_pgpSecretKey k = []")
    case False
    then have "initCard L k d0 (boot_card L s) = Some (c1, d1)"
      using 1(3) by simp
    then show ?thesis
      by (cases rule: initCard_cases) (auto simp: boot dest: Init_power)
  qed (use 1(3) boot in simp)
  then have "power_ok (c1\<lparr>c_rng := s'\<rparr>)"
    by (simp add: power_ok_def)
  then show ?thesis
    using 1(5) \<open>power_ok c1\<close> by simp
qed

lemma boot_sealed:
  assumes "gokey_main L k hw s = Some g" and "\<not> k_initAtBoot k"
  shows "fresh (co_card (g_con g)) \<and>
    (k_pgpSecretKey k \<noteq> [] \<longrightarrow> c_ArmoredKey (co_card (g_con g)) = k_pgpSecretKey k)"
  using assms(1)
proof (cases rule: gokey_main_cases)
  case (1 c1 d0 d1 t1 d2 hw1 s')
  have "c1 = (if k_pgpSecretKey k = [] then boot_card L s else keyed_card k (boot_card L s))"
    using 1(3) assms(2) by (auto split: if_splits elim: initCard_cases)
  then show ?thesis
    unfolding 1(5) by (simp add: boot_card_fresh) (simp add: keyed_card_def)
qed

section \<open>Properties\<close>

text \<open>
  C33. The file the bundler generates compiles against \<^verbatim>\<open>keys.go\<close>: every variable it assigns is
  declared there, with the type of the assigned value, so running the generated initializer is defined.
\<close>

theorem bundle_well_typed:
  assumes "bundle_main H s = Some settings"
  shows "(\<forall>(var, x) \<in> set settings. (var, setting_type x) \<in> set keys_types) \<and>
    (\<exists>k. generated_init settings keys_zero = Some k)"
proof -
  obtain a1 a2 a3 a4 a5 where "settings = bundle_settings H a1 a2 a3 a4 a5"
    using bundle_main_settings [OF assms] by blast
  then have "\<forall>a \<in> set settings. (fst a, setting_type (snd a)) \<in> set keys_types"
    using bundle_settings_typed by blast
  then show ?thesis
    using generated_init_typed by (auto simp: split_beta)
qed

lemma sample_host_main: "\<exists>settings. bundle_main sample_host 0 = Some settings"
proof -
  have len: "length DiversifierPGP = 16"
    by (simp add: DiversifierPGP_def str_bytes_def)
  then show ?thesis
    using sample_host_key [of "str_bytes ''test''"] sample_host_encrypt [OF len, of "''key.asc''" 0]
    by (auto simp: bundle_main_def bundle_public_def bundle_private_def)
qed

theorem bundle_well_typed_witness:
  "\<exists>settings k. bundle_main sample_host 0 = Some settings \<and> generated_init settings keys_zero = Some k"
  using bundle_well_typed [of sample_host 0] sample_host_main by blast

lemma Init_unsealed:
  assumes "\<not> c_initialized c" and "c_SNVS c" and "snvs_Decrypt L (c_ArmoredKey c) DiversifierPGP = Some (m, None)"
    and "Init L c = Some (err, c')"
  shows "c_ArmoredKey c' = m" and "(err = None) = (snd (decodeArmoredKey L m) = None)"
  using assms
  by (auto simp: Init_def Let_def signalVerificationStatus_def LED_def load_entity_def
      split: option.splits prod.splits if_splits)

text \<open>
  C15. From key file to card: with \<^verbatim>\<open>SNVS\<close> set (and not to \<^verbatim>\<open>ssh\<close>), a device whose hardware
  derives the key the bundler wrapped with boots with exactly the contents of the key file in its card, and the
  card is initialized just when those contents decode.
\<close>

theorem boot_unseals_bundle:
  assumes "bundle_main H s = Some settings" and "Getenv H ''SNVS'' \<notin> {[], ''ssh''}"
    and "generated_init settings keys_zero = Some k" and "k_pgpSecretKey k \<noteq> []"
    and "Tamago D" and "cipher_ok D" and "same_crypto H D"
    and "fst (DeriveKey D DiversifierPGP kdf_iv (-1)) = fst (deriveKey H DiversifierPGP (replicate 16 0))"
    and "snd (DeriveKey D DiversifierPGP kdf_iv (-1)) = None"
    and "gokey_main D k hw r = Some g"
  shows "\<exists>m. ReadFile H (Getenv H ''PGP_SECRET_KEY'') = (m, None) \<and>
    c_ArmoredKey (co_card (g_con g)) = m \<and>
    c_initialized (co_card (g_con g)) = (snd (decodeArmoredKey D m) = None)"
proof -
  obtain sshPub ssh s1 pgp s2 u2fPub u2f s3 where
    wrap: "bundle_private H True ''PGP_SECRET_KEY'' DiversifierPGP s1 = Some (pgp, s2)"
    and settings: "settings = bundle_settings H sshPub ssh pgp u2fPub u2f"
    using bundle_main_Some [OF assms(1)] assms(2) by blast
  have k: "k_SNVS k" "k_initAtBoot k" "k_pgpSecretKey k = pgp"
    using generated_keys [of H sshPub ssh pgp u2fPub u2f] assms(2,3) unfolding settings by auto
  obtain t1 t2 where "bundle_encrypt H (Getenv H ''PGP_SECRET_KEY'') DiversifierPGP t1 = Some ((pgp, None), t2)"
    using bundle_private_wraps [OF wrap] assms(4) k(3) by blast
  then obtain m where m: "ReadFile H (Getenv H ''PGP_SECRET_KEY'') = (m, None)"
    "Decrypt_imx6 D pgp DiversifierPGP = Some (m, None)"
    using bundle_unwraps [OF assms(6-9)] by blast
  from assms(10) show ?thesis
  proof (cases rule: gokey_main_cases)
    case (1 c1 d0 d1 t1 d2 hw1 s')
    then have "initCard D k d0 (boot_card D r) = Some (c1, d1)"
      using assms(4) by simp
    then obtain err where init: "Init D (keyed_card k (boot_card D r)) = Some (err, c1)"
      using k(2) by (auto elim: initCard_cases)
    let ?c = "keyed_card k (boot_card D r)"
    have c: "\<not> c_initialized ?c" "c_SNVS ?c" "snvs_Decrypt D (c_ArmoredKey ?c) DiversifierPGP = Some (m, None)"
      using k m(2) assms(5) by (simp_all add: keyed_card_def boot_card_def blank_card_def snvs_Decrypt_def)
    have "c_initialized c1 = (err = None)"
      using Init_initializes [of D ?c c1] Init_failed(1) [of D ?c _ c1] init c(1) by (cases err) auto
    then show ?thesis
      using m(1) 1(5) Init_unsealed [OF c init] by simp
  qed
qed

text \<open>The U2F package adds one interface with two endpoints.\<close>

definition fidati_ok :: "('x) u2flib_scheme \<Rightarrow> bool" where
  "fidati_ok L \<longleftrightarrow>
     (\<forall>d d'. ud_Configurations d \<noteq> [] \<longrightarrow> ConfigureU2FUSB L d = (None, d') \<longrightarrow>
        ud_Configurations d' \<noteq> [] \<and> (\<exists>i. interfaces d' = interfaces d @ [i] \<and> length (Endpoints i) = 2))"

lemma u2f_addresses_last:
  assumes "usb_ok L" and "u2f_addresses L d = Some d'" and "interfaces d = is @ [i]" and "length (Endpoints i) = 2"
  shows "addresses d' = concat (map (map EndpointAddress \<circ> Endpoints) is) @ [0x04, 0x84]"
proof -
  obtain e1 e2 where eps: "Endpoints i = [e1, e2]"
    using assms(4) by (metis length_0_conv length_Suc_conv numeral_2_eq_2)
  then show ?thesis
    using assms(1-3)
    by (auto simp: u2f_addresses_def addresses_def interfaces_def set_address_def usb_ok_def
        split: list.splits if_splits)
qed

text \<open>
  The smart card and the U2F interface do not share endpoints: after configuring the device, the
  reader and then the token, the four endpoint addresses in use are 3 and 4 in both directions.
\<close>

theorem endpoints_separate:
  assumes "usb_ok L" and "fidati_ok L"
    and "ConfigureCCID L (ConfigureDevice L serial blank_device) = Some d1"
    and "Configure L t d1 = Some (None, t', d2)"
  shows "addresses d2 = [0x83, 0x03, 0x04, 0x84] \<and> distinct (addresses d2)"
proof -
  let ?d0 = "ConfigureDevice L serial blank_device"
  have conf: "ud_Configurations ?d0 = [ConfigurationDefaults L]"
    using ConfigureDevice_configurations [OF assms(1)] by (simp add: blank_device_def)
  then have none: "interfaces ?d0 = []"
    using assms(1) by (simp add: interfaces_def usb_ok_def)
  obtain i where d1: "interfaces d1 = [ccid_interface L i]" "ud_Configurations d1 \<noteq> []"
    using ConfigureCCID_interfaces [OF assms(1), of ?d0] conf none assms(3) by auto
  obtain d where d: "ConfigureU2FUSB L d1 = (None, d)" "u2f_addresses L d = Some d2"
    using assms(4)
    by (auto simp: Configure_def Let_def bind_eq_Some_conv split: option.splits prod.splits if_splits)
  obtain j where "interfaces d = [ccid_interface L i] @ [j]" "length (Endpoints j) = 2"
    using assms(2) d(1) d1 unfolding fidati_ok_def by metis
  from u2f_addresses_last [OF assms(1) d(2) this] show ?thesis
    by (simp add: ccid_interface_endpoints [OF assms(1)] ccid_endpoint_def)
qed

section \<open>Concrete runs\<close>

definition sample_cons :: conslib where
  "sample_cons = agelib.extend sample_age
     \<lparr>EscCyan = [], EscReset = [], BuildInfo = None, Hkdf = (\<lambda>k s. (k, None)), KeygenECDSA = (\<lambda>k. (k, None)),
      EcdsaGenerateKey = (\<lambda>s. (([1], None), Suc s)), ParseRawPrivateKey = (\<lambda>k. (k, None)),
      ParseAuthorizedKey = (\<lambda>k. (k, None)), NewSignerFromKey = (\<lambda>k. (k, None))\<rparr>"

definition sample_boot :: bootlib where
  "sample_boot = conslib.extend sample_cons
     \<lparr>NetAdd = (\<lambda>ip mac hmac d. (None, d)), ListenErr = None, FrontPortMode = Attached, Banner = []\<rparr>"

lemmas sample_boot_defs = sample_boot_def conslib.defs sample_cons_def agelib.defs sample_age_def
  u2flib.defs sample_u2f_def usblib.defs sample_usb_def rpclib.defs sample_rpc_def pgplib.defs

lemma sample_boot_simps [simp]:
  "NetAdd sample_boot ip mac hmac d = (None, d)" "ListenErr sample_boot = None"
  "Tamago sample_boot" "SnvsAvailable sample_boot" "DeriveKey sample_boot x iv i = (replicate 16 5, None)"
  "decodeArmoredKey sample_boot a = (Some sample_entity, None)"
  "ParseAuthorizedKey sample_boot key = (key, None)" "ParseRawPrivateKey sample_boot key = (key, None)" "NewSignerFromKey sample_boot key = (key, None)"
  "EcdsaGenerateKey sample_boot s = (([1], None), Suc s)" "PluginNew sample_boot name = None"
  by (simp_all add: sample_boot_defs sample_lib_def devlib.defs demo_dev_def cryptolib.defs
      decodeArmoredKey_def)

lemma sample_boot_pgp: "pgp_ok sample_boot"
  using sample_lib_pgp by (simp add: sample_boot_defs pgp_ok_def)

lemma sample_boot_cipher: "cipher_ok sample_boot"
  using sample_lib_cipher by (simp add: sample_boot_defs cipher_ok_def)

lemma sample_boot_usb: "usb_ok sample_boot"
  using sample_usb_ok by (simp add: sample_boot_def conslib.defs sample_cons_def agelib.defs sample_age_def
      u2flib.defs sample_u2f_def usblib.defs usb_ok_def)

lemma sample_boot_fidati: "fidati_ok sample_boot"
proof -
  have "ConfigureU2FUSB sample_boot = sample_fidati"
    by (simp add: sample_boot_def conslib.defs sample_cons_def agelib.defs sample_age_def
        u2flib.defs sample_u2f_def usblib.defs)
  then show ?thesis
    by (auto simp: fidati_ok_def sample_fidati_def interfaces_def split: list.splits)
qed

text \<open>The sample key ring always loads.\<close>

lemma sample_entity_Init:
  assumes "\<And>a. decodeArmoredKey L a = (Some sample_entity, None)" and "\<not> c_initialized c"
    and "c_SNVS c \<longrightarrow> (\<exists>m. snvs_Decrypt L (c_ArmoredKey c) DiversifierPGP = Some (m, None))"
  shows "\<exists>c'. Init L c = Some (None, c')"
proof -
  have "Status ((load_entity sample_entity c)\<lparr>c_errorCounterPW1 := n, c_initialized := b\<rparr>) \<noteq> None" for c n b
    by (simp add: Status_def subkey_status_def load_entity_def Let_def decodeSubkeys_def
        subkey_cells_def sample_entity_def subkey_cell_def subkey_heap_def no_flags_def)
  then show ?thesis
    using assms by (auto simp: Init_def Let_def simp del: not_None_eq split: option.split)
qed

lemma sample_boot_Init:
  assumes "\<not> c_initialized c" and "c_SNVS c \<longrightarrow> (\<exists>m. snvs_Decrypt sample_boot (c_ArmoredKey c) DiversifierPGP = Some (m, None))"
  shows "\<exists>c'. Init sample_boot c = Some (None, c')"
  using assms by (intro sample_entity_Init) simp_all

lemma Init_SNVS: "Init L c = Some (err, c') \<Longrightarrow> c_SNVS c' = c_SNVS c"
  by (auto simp: Init_def Let_def bind_eq_Some_conv signalVerificationStatus_def LED_def load_entity_def
      split: if_splits option.splits prod.splits)

lemma sample_boot_initCard:
  assumes "k_initAtBoot k \<longrightarrow> (\<exists>c'. Init sample_boot (keyed_card k c) = Some (None, c'))" and "ud_Configurations d \<noteq> []"
  shows "\<exists>c' d'. initCard sample_boot k d c = Some (c', d')"
  using assms(1) ConfigureCCID_interfaces [OF sample_boot_usb assms(2)]
  by (auto simp: initCard_def keyed_card_def Let_def)

text \<open>A device with a wrapped card key and a console, started with or without initialization.\<close>

lemma sample_boot_main:
  assumes "k_pgpSecretKey k \<noteq> []" and "k_u2fPublicKey k = []" and "k_sshPublicKey k \<noteq> [] \<longrightarrow> \<not> k_SNVS k"
    and "k_initAtBoot k \<longrightarrow> k_SNVS k \<longrightarrow>
      (\<exists>m. snvs_Decrypt sample_boot (k_pgpSecretKey k) DiversifierPGP = Some (m, None))"
  shows "\<exists>g. gokey_main sample_boot k hw s = Some g"
proof -
  let ?c = "boot_card sample_boot s"
  let ?d = "ConfigureDevice sample_boot (fmt_X (c_Serial ?c)) blank_device"
  have d: "ud_Configurations ?d \<noteq> []"
    by (simp add: ConfigureDevice_configurations [OF sample_boot_usb])
  have "\<exists>c'. Init sample_boot (keyed_card k ?c) = Some (None, c')" if "k_initAtBoot k"
    using that assms(4) by (intro sample_boot_Init) (simp_all add: keyed_card_def boot_card_def blank_card_def)
  then obtain c' d' where card: "initCard sample_boot k ?d ?c = Some (c', d')"
    using sample_boot_initCard [OF _ d] by blast
  have "\<exists>r. configureNetworking sample_boot k d' (console_zero c' token_zero hw) = Some r"
    if "k_sshPublicKey k \<noteq> []"
  proof -
    have "\<not> c_SNVS c'"
      using card that assms(3)
      by (auto elim!: initCard_cases simp: keyed_card_def dest!: Init_SNVS)
    then show ?thesis
      by (simp add: configureNetworking_def Plugin_Init_def Start_def start_def console_zero_def token_zero_def Let_def)
  qed
  then show ?thesis
    using card assms(1,2)
    by (auto simp: gokey_main_def boot_card_def [symmetric] Let_def)
qed

theorem boot_unseals_bundle_witness:
  "\<exists>settings k g. bundle_main sample_host 0 = Some settings \<and>
     generated_init settings keys_zero = Some k \<and> gokey_main sample_boot k sample_hw 7 = Some g \<and>
     c_ArmoredKey (co_card (g_con g)) = replicate 20 9 \<and> c_initialized (co_card (g_con g))"
proof -
  have len: "length DiversifierPGP = 16"
    by (simp add: DiversifierPGP_def str_bytes_def)
  have crypto: "same_crypto sample_host sample_boot"
    by (simp add: same_crypto_def sample_boot_defs sample_lib_def devlib.defs demo_dev_def sample_host_def cryptolib.defs)
  obtain out where enc: "bundle_encrypt sample_host ''key.asc'' DiversifierPGP 0 = Some ((out, None), Suc 0)" "out \<noteq> []"
    using sample_host_encrypt [OF len] by blast
  let ?settings = "bundle_settings sample_host [] [] out [] []"
  have main: "bundle_main sample_host 0 = Some ?settings"
    using sample_host_key [of "str_bytes ''test''"] enc
    by (simp add: bundle_main_def bundle_public_def bundle_private_def)
  obtain k where k: "generated_init ?settings keys_zero = Some k" "k_pgpSecretKey k = out" "k_u2fPublicKey k = []"
    "k_sshPublicKey k = []"
    using generated_keys [of sample_host "[]" "[]" out "[]" "[]"] by blast
  have key: "deriveKey sample_host DiversifierPGP (replicate 16 0) = (replicate 16 5, None)"
    using sample_host_key len by blast
  then have "\<exists>m. Decrypt_imx6 sample_boot out DiversifierPGP = Some (m, None)"
    using bundle_unwraps [OF sample_boot_cipher crypto _ _ enc(1)] by simp
  then obtain g where g: "gokey_main sample_boot k sample_hw 7 = Some g"
    using sample_boot_main [of k sample_hw 7] k enc(2) by (auto simp: snvs_Decrypt_def)
  show ?thesis
    using boot_unseals_bundle [OF main _ k(1) _ _ sample_boot_cipher crypto _ _ g] k(1,2) enc(2) main g key
    by simp
qed

theorem endpoints_separate_witness:
  "\<exists>d1 t' d2. ConfigureCCID sample_boot (ConfigureDevice sample_boot [] blank_device) = Some d1 \<and>
     Configure sample_boot (token_zero\<lparr>t_PublicKey := [1], t_PrivateKey := [2]\<rparr>) d1 = Some (None, t', d2) \<and>
     addresses d2 = [0x83, 0x03, 0x04, 0x84]"
proof -
  let ?d = "ConfigureDevice sample_boot [] blank_device"
  have "ud_Configurations ?d \<noteq> []"
    by (simp add: ConfigureDevice_configurations [OF sample_boot_usb])
  then obtain d1 i where d1: "ConfigureCCID sample_boot ?d = Some d1" "ud_Configurations d1 \<noteq> []"
    using ConfigureCCID_interfaces [OF sample_boot_usb] by blast
  let ?t = "token_zero\<lparr>t_PublicKey := [1], t_PrivateKey := [2]\<rparr>"
  have lib: "NewU2FToken sample_boot p q = None" "NewU2FHandler sample_boot = None"
    "ConfigureU2FUSB sample_boot = sample_fidati" "usb_OUT sample_boot = 0" "usb_IN sample_boot = 1" for p q
    by (simp_all add: sample_boot_defs)
  obtain cf cfs where "ud_Configurations d1 = cf # cfs"
    using d1(2) by (cases "ud_Configurations d1") auto
  then obtain t' d2 where conf: "Configure sample_boot ?t d1 = Some (None, t', d2)"
    by (simp add: Configure_def lib token_zero_def sample_fidati_def u2f_addresses_def set_address_def)
  show ?thesis
    using endpoints_separate [OF sample_boot_usb sample_boot_fidati d1(1) conf] d1(1) conf by blast
qed

end
