(* ===== verification/System.thy ===== *)
theory System
  imports Boot
begin

text \<open>
  The running device as one state machine: everything that reaches the card, the token or the
  reader after \<^verbatim>\<open>main\<close> of \<^verbatim>\<open>src/gokey_imx6.go\<close> has started the USB interrupt handler
  and the SSH server. Each event is one call that the code makes from an interrupt, a goroutine or a timer;
  the relation \<open>step\<close> lets them interleave in any order, each as a whole (the code
  does not lock the card around its operations).
\<close>

section \<open>Events\<close>

text \<open>
  The endpoint functions, the sleep timer, an accepted TCP connection, a channel or a terminal
  of an authenticated client (its key, the bytes of the channel, its requests, the lines it types), one line
  read by a terminal that is already open (with the lines that can be read after it),
  and the U2F package asking for user presence, giving up on it, and counting.
\<close>

datatype event =
  UsbOut bytes | UsbIn bytes | SleepTimeout | Accept
| Channel bytes string bytes "ssh_request list" "(string \<times> goerr option) list"
| Terminal bytes bytes "(string \<times> goerr option) list"
| Line bytes bytes string "(string \<times> goerr option) list"
| PresenceRequested | PresenceTimedOut | U2fIncrement

fun client :: "event \<Rightarrow> bytes option" where
  "client (Channel key _ _ _ _) = Some key"
| "client (Terminal key _ _) = Some key"
| "client (Line key _ _ _) = Some key"
| "client _ = None"

definition g_card :: "gokey \<Rightarrow> card" where
  "g_card g = co_card (g_con g)"

definition running :: "gokey \<Rightarrow> bool" where
  "running g \<longleftrightarrow> \<not> co_reset (g_con g)"

definition g_reader :: "gokey \<Rightarrow> usb" where
  "g_reader g = \<lparr>u_card = g_card g, u_queue = g_queue g\<rparr>"

definition set_card :: "card \<Rightarrow> gokey \<Rightarrow> gokey" where
  "set_card c g = g\<lparr>g_con := (g_con g)\<lparr>co_card := c\<rparr>\<rparr>"

definition set_reader :: "usb \<Rightarrow> gokey \<Rightarrow> gokey" where
  "set_reader u g = (set_card (u_card u) g)\<lparr>g_queue := u_queue u\<rparr>"

text \<open>The accept loop of \<^verbatim>\<open>start\<close> wakes the card before it authenticates anybody.\<close>

definition ssh_accept :: "console \<Rightarrow> console" where
  "ssh_accept con = con\<lparr>co_card := Wake (co_card con)\<rparr>"

text \<open>The keyring's counter, through which the U2F package reaches the hardware.\<close>

definition u2f_counter :: "gokey \<Rightarrow> Counter option" where
  "u2f_counter g = do { kr \<leftarrow> t_keyring (co_token (g_con g)); kr_Counter kr }"

inductive step :: "('x) bootlib_scheme \<Rightarrow> gokey \<Rightarrow> event \<Rightarrow> gokey \<Rightarrow> bool" for L where
  usb_out: "running g \<Longrightarrow> g_ccid g \<Longrightarrow> g_queue g = None \<Longrightarrow> CCIDRx L buf (g_reader g) = Some (err, u) \<Longrightarrow>
    step L g (UsbOut buf) (set_reader u g)"
| usb_in: "running g \<Longrightarrow> g_ccid g \<Longrightarrow> CCIDTx (g_reader g) = (inn, u) \<Longrightarrow>
    step L g (UsbIn inn) (set_reader u g)"
| sleep: "running g \<Longrightarrow> 0 < c_sleep_timers (g_card g) \<Longrightarrow>
    step L g SleepTimeout (set_card (sleep_timeout (g_card g)) g)"
| accept: "running g \<Longrightarrow> g_auth g \<noteq> None \<Longrightarrow> step L g Accept (g\<lparr>g_con := ssh_accept (g_con g)\<rparr>)"
| channel: "running g \<Longrightarrow> g_auth g = Some ok \<Longrightarrow> ok key \<Longrightarrow>
    handleChannel L ty rw reqs ((g_con g)\<lparr>co_input := lines\<rparr>) = Some (shells, con) \<Longrightarrow>
    step L g (Channel key ty rw reqs lines) (g\<lparr>g_con := con\<rparr>)"
| terminal: "running g \<Longrightarrow> g_auth g = Some ok \<Longrightarrow> ok key \<Longrightarrow>
    handleTerminal L rw (Banner L) ((g_con g)\<lparr>co_input := lines\<rparr>) = Some con \<Longrightarrow>
    step L g (Terminal key rw lines) (g\<lparr>g_con := con\<rparr>)"
| line: "running g \<Longrightarrow> g_auth g = Some ok \<Longrightarrow> ok key \<Longrightarrow>
    handleCommand L rw cmd ((g_con g)\<lparr>co_input := lines\<rparr>) = Some (err, con) \<Longrightarrow>
    step L g (Line key rw cmd lines) (g\<lparr>g_con := con\<rparr>)"
| presence: "running g \<Longrightarrow> u2f_counter g = Some c \<Longrightarrow> cnt_presence c = Some ch \<Longrightarrow>
    step L g PresenceRequested (g\<lparr>g_con := (g_con g)\<lparr>co_waiting := Some ch\<rparr>\<rparr>)"
| timed_out: "running g \<Longrightarrow> step L g PresenceTimedOut (g\<lparr>g_con := (g_con g)\<lparr>co_waiting := None\<rparr>\<rparr>)"
| increment: "running g \<Longrightarrow> u2f_counter g = Some c \<Longrightarrow> Increment L c (co_hw (g_con g)) = Some (r, hw) \<Longrightarrow>
    step L g U2fIncrement (g\<lparr>g_con := (g_con g)\<lparr>co_hw := hw\<rparr>\<rparr>)"

inductive_cases step_UsbInE: "step L g (UsbIn inn) g'"
inductive_cases step_UsbOutE: "step L g (UsbOut buf) g'"
inductive_cases step_SleepE: "step L g SleepTimeout g'"
inductive_cases step_ChannelE: "step L g (Channel key ty rw reqs lines) g'"
inductive_cases step_TerminalE: "step L g (Terminal key rw lines) g'"

inductive run :: "('x) bootlib_scheme \<Rightarrow> gokey \<Rightarrow> event list \<Rightarrow> gokey \<Rightarrow> bool" for L where
  start: "run L g [] g"
| snoc: "run L g evs g1 \<Longrightarrow> step L g1 ev g' \<Longrightarrow> run L g (evs @ [ev]) g'"

lemma run_append: "run L g1 evs' g' \<Longrightarrow> run L g evs g1 \<Longrightarrow> run L g (evs @ evs') g'"
  by (induction rule: run.induct) (auto simp flip: append_assoc intro: run.intros)

lemma run_Cons:
  assumes "step L g ev g1" and "run L g1 evs g'"
  shows "run L g (ev # evs) g'"
  using assms(2,1)
proof induction
  case (start g1)
  then show ?case
    using run.snoc [OF run.start] by fastforce
next
  case (snoc g1 evs g2 ev' g')
  then show ?case
    using run.snoc [of L g "ev # evs" g2] by simp
qed

section \<open>What an event does to the card\<close>

text \<open>Besides what an initialized card allows, the console may initialize the card.\<close>

inductive sys_moves :: "('x) pgplib_scheme \<Rightarrow> card \<Rightarrow> card \<Rightarrow> bool" for L where
  stay: "sys_moves L c c"
| moves: "sys_moves L c c1 \<Longrightarrow> card_moves L c1 c' \<Longrightarrow> sys_moves L c c'"
| init: "sys_moves L c c1 \<Longrightarrow> Init L c1 = Some (err, c') \<Longrightarrow> sys_moves L c c'"

lemma sys_moves_card: "card_moves L c c' \<Longrightarrow> sys_moves L c c'"
  by (rule sys_moves.moves [OF sys_moves.stay])

lemma sys_moves_quiet: "quiet_step c c' \<Longrightarrow> sys_moves L c c'"
  by (intro sys_moves_card card_moves_quiet)

lemma sys_moves_Init: "Init L c = Some (err, c') \<Longrightarrow> sys_moves L c c'"
  by (rule sys_moves.init [OF sys_moves.stay])

lemma sys_moves_trans:
  assumes "sys_moves L c1 c2" and "sys_moves L c c1"
  shows "sys_moves L c c2"
  using assms by (induction rule: sys_moves.induct) (auto intro: sys_moves.intros)

lemma sys_moves_ok:
  assumes "sys_moves L c c'" and "pgp_ok L" and "system_ok c"
    and "\<forall>armored ent. decodeArmoredKey L armored = (Some ent, None) \<longrightarrow> entity_ok ent"
  shows "system_ok c'"
  using assms by (induction rule: sys_moves.induct) (auto intro: moves_system_ok Init_system_ok)

lemma sys_moves_power: "sys_moves L c c' \<Longrightarrow> power_ok c \<Longrightarrow> power_ok c'"
  by (induction rule: sys_moves.induct) (auto dest: card_moves_power Init_power)

text \<open>An initialized card cannot be initialized again.\<close>

lemma sys_moves_initialized:
  assumes "sys_moves L c c'" and "c_initialized c"
  shows "card_moves L c c'"
  using assms
proof induction
  case (stay c)
  show ?case
    by (rule card_moves.stay)
next
  case (moves c c1 c')
  then show ?case
    using card_moves_trans by blast
next
  case (init c c1 err c')
  then have "c_initialized c1"
    using card_identityD(7) [OF card_moves_identity] by blast
  then show ?case
    using init Init_initialized [of c1 L] by (simp add: Initialized_def)
qed

section \<open>The contract of a program around the card\<close>

text \<open>
  Whoever holds the card, if each of its steps only moves the card, keeps what the card guarantees in
  every state it reaches.
\<close>

locale card_host =
  fixes card_of :: "'s \<Rightarrow> card"
    and next_state :: "('x) pgplib_scheme \<Rightarrow> 's \<Rightarrow> 's \<Rightarrow> bool"
  assumes next_moves: "next_state L s s' \<Longrightarrow> sys_moves L (card_of s) (card_of s')"
begin

lemma reach_moves: "(next_state L)\<^sup>*\<^sup>* s s' \<Longrightarrow> sys_moves L (card_of s) (card_of s')"
  by (induction rule: rtranclp_induct) (auto intro: sys_moves.stay next_moves sys_moves_trans)

lemma reach_ok:
  assumes "(next_state L)\<^sup>*\<^sup>* s s'" and "pgp_ok L" and "system_ok (card_of s)"
    and "\<forall>armored ent. decodeArmoredKey L armored = (Some ent, None) \<longrightarrow> entity_ok ent"
  shows "system_ok (card_of s')"
  using sys_moves_ok [OF reach_moves [OF assms(1)] assms(2-4)] .

lemma reach_power: "(next_state L)\<^sup>*\<^sup>* s s' \<Longrightarrow> power_ok (card_of s) \<Longrightarrow> power_ok (card_of s')"
  by (rule sys_moves_power [OF reach_moves])

lemma reach_identity:
  assumes "(next_state L)\<^sup>*\<^sup>* s s'" and "c_initialized (card_of s)"
  shows "card_identity (card_of s') = card_identity (card_of s)"
  using card_moves_identity [OF sys_moves_initialized [OF reach_moves [OF assms(1)] assms(2)]] .

lemma reach_blocked:
  assumes "(next_state L)\<^sup>*\<^sup>* s s'" and "pgp_ok L" and "c_initialized (card_of s)" and "card_inv (card_of s)"
    and "c_errorCounterPW1 (card_of s) = 0"
  shows "c_errorCounterPW1 (card_of s') = 0 \<and>
    (\<forall>sk \<in> {c_Sig (card_of s), c_Dec (card_of s)}. slot_locked (card_of s) sk \<longrightarrow> slot_locked (card_of s') sk)"
  using card_moves_blocked [OF sys_moves_initialized [OF reach_moves [OF assms(1)] assms(3)] assms(2,4,5)] .

end

section \<open>The console\<close>

lemma verify_all_sys: "verify_all L p1 pass pws c = Some (err, c') \<Longrightarrow> sys_moves L c c'"
  by (intro sys_moves_card verify_all_moves)

lemma lockCommand_sys:
  assumes "lockCommand L op arg con = Some (res, con')"
  shows "sys_moves L (co_card con) (co_card con')"
  using assms
  by (auto simp: lockCommand_def Let_def bind_eq_Some_conv term_read_def
      split: if_splits prod.splits list.splits
      dest!: verify_all_sys sys_moves_Init intro: sys_moves.stay elim: sys_moves_trans)

lemma handleCommand_sys:
  assumes "handleCommand L rw cmd con = Some (err, con')"
  shows "sys_moves L (co_card con) (co_card con')"
  using assms
  by (auto simp: handleCommand_def println_def term_write_def token_init_def confirm_presence_def
      Let_def bind_eq_Some_conv
      split: if_splits prod.splits option.splits
      intro: sys_moves.stay sys_moves_quiet sys_moves_Init
      dest!: ServeRPC_quiet lockCommand_sys)

lemma terminal_loop_sys:
  "terminal_loop L rw con = Some con' \<Longrightarrow> sys_moves L (co_card con) (co_card con')"
proof (induction "length (co_input con)" arbitrary: con rule: less_induct)
  case less
  show ?case
  proof (cases "co_input con")
    case Nil
    then show ?thesis
      using less.prems by (subst (asm) terminal_loop.simps) (auto intro: sys_moves.stay)
  next
    case (Cons line rest)
    obtain cmd err where line: "line = (cmd, err)"
      by (cases line)
    let ?con = "con\<lparr>co_input := rest\<rparr>"
    have next_line: "sys_moves L (co_card con2) (co_card con')"
      if "terminal_loop L rw con2 = Some con'" "length (co_input con2) \<le> length rest" for con2
      using less.hyps [of con2] that Cons by simp
    show ?thesis
    proof (cases err)
      case None
      then obtain err2 con2 where step: "handleCommand L rw cmd ?con = Some (err2, con2)"
        and rest: "con' = con2 \<or> terminal_loop L rw con2 = Some con'"
        using less.prems by (subst (asm) terminal_loop.simps)
          (auto simp: Cons line split: option.splits goerr.splits)
      have "sys_moves L (co_card con2) (co_card con')"
        using rest next_line handleCommand_input [OF step] by (auto intro: sys_moves.stay)
      then show ?thesis
        using handleCommand_sys [OF step] sys_moves_trans by force
    next
      case (Some e)
      then have "con' = ?con \<or> terminal_loop L rw ?con = Some con'"
        using less.prems by (subst (asm) terminal_loop.simps) (auto simp: Cons line Let_def split: goerr.splits)
      then show ?thesis
        using next_line [of ?con] by (auto intro: sys_moves.stay)
    qed
  qed
qed

lemma handleTerminal_sys:
  "handleTerminal L rw banner con = Some con' \<Longrightarrow> sys_moves L (co_card con) (co_card con')"
  unfolding handleTerminal_def by (drule terminal_loop_sys) (simp add: term_write_def)

lemma handleSession_sys:
  "handleSession L rw reqs shells con = Some (n, con') \<Longrightarrow> sys_moves L (co_card con) (co_card con')"
proof (induction reqs arbitrary: shells)
  case (Cons req reqs)
  then obtain act where "session_action req = Some act"
    by (auto simp: bind_eq_Some_conv)
  with Cons show ?case
    by (cases act) (auto intro: handleCommand_sys)
qed (simp add: sys_moves.stay)

lemma handleChannel_sys:
  "handleChannel L ty rw reqs con = Some (n, con') \<Longrightarrow> sys_moves L (co_card con) (co_card con')"
  by (auto simp: handleChannel_def handleDirectForward_def split: if_splits
      intro: sys_moves.stay handleSession_sys handleCommand_sys)

lemma Rx_moves: "Rx L buf c = Some (r, c') \<Longrightarrow> card_moves L c c'"
  using Rx_card [of L buf c r c'] RawCommand_moves card_moves_quiet [OF awakened_quiet]
    card_moves_trans by metis

lemma CCIDRx_moves: "CCIDRx L buf u = Some (err, u') \<Longrightarrow> card_moves L (u_card u) (u_card u')"
  by (erule CCIDRx_cases) (auto dest: Rx_moves)

lemma CCIDTx_card: "CCIDTx u = (inn, u') \<Longrightarrow> u_card u' = u_card u"
  by (auto simp: CCIDTx_def split: option.splits)

lemma g_card_simps [simp]:
  "g_card (set_card c g) = c" "g_card (set_reader u g) = u_card u" "u_card (g_reader g) = g_card g"
  "g_card (g\<lparr>g_con := con\<rparr>) = co_card con"
  by (simp_all add: g_card_def set_card_def set_reader_def g_reader_def)

section \<open>The device\<close>

lemma step_quiet_or_client:
  assumes "step L g ev g'"
  shows "if client ev = None then card_moves L (g_card g) (g_card g') else sys_moves L (g_card g) (g_card g')"
  using assms
proof cases
  case (usb_out buf err u)
  then show ?thesis
    using CCIDRx_moves [of L buf "g_reader g" err u] by simp
next
  case (usb_in inn u)
  then show ?thesis
    using CCIDTx_card [of "g_reader g" inn u] by (simp add: card_moves.stay)
next
  case accept
  then show ?thesis
    by (simp add: ssh_accept_def card_moves_quiet flip: g_card_def)
next
  case (channel ok key ty rw reqs lines shells con)
  then show ?thesis
    using handleChannel_sys by (fastforce simp: g_card_def)
next
  case (terminal ok key rw lines con)
  then show ?thesis
    using handleTerminal_sys by (fastforce simp: g_card_def)
next
  case (line ok key rw cmd lines err con)
  then show ?thesis
    using handleCommand_sys by (fastforce simp: g_card_def)
qed (auto simp: card_moves_quiet card_moves.stay simp flip: g_card_def)

lemma step_sys: "step L g ev g' \<Longrightarrow> sys_moves L (g_card g) (g_card g')"
  using step_quiet_or_client [of L g ev g'] sys_moves_card by (auto split: if_splits)

interpretation device: card_host g_card "\<lambda>L g g'. \<exists>ev. step L g ev g'"
  by unfold_locales (auto dest: step_sys)

lemma run_reach: "run L g evs g' \<Longrightarrow> (\<lambda>g g'. \<exists>ev. step L g ev g')\<^sup>*\<^sup>* g g'"
  by (induction rule: run.induct) (auto intro: rtranclp.rtrancl_into_rtrancl)

text \<open>The endpoint pair alone is such a program, too.\<close>

lemma usb_step_moves: "usb_step L u ev u' \<Longrightarrow> sys_moves L (u_card u) (u_card u')"
  by (induction rule: usb_step.induct) (auto simp: CCIDTx_card intro: sys_moves_card CCIDRx_moves sys_moves.stay)

interpretation endpoints: card_host u_card "\<lambda>L u u'. \<exists>ev. usb_step L u ev u'"
  by unfold_locales (auto dest: usb_step_moves)

text \<open>Without a client nothing initializes the card.\<close>

lemma run_no_client:
  assumes "run L g evs g'" and "\<forall>ev \<in> set evs. client ev = None"
  shows "card_moves L (g_card g) (g_card g')"
  using assms
  by (induction rule: run.induct) (auto intro: card_moves.stay card_moves_trans dest!: step_quiet_or_client)

text \<open>The client check and the reader's presence never change.\<close>

lemma step_auth: "step L g ev g' \<Longrightarrow> g_auth g' = g_auth g \<and> g_ccid g' = g_ccid g"
  by (induction rule: step.induct) (simp_all add: set_reader_def set_card_def)

lemma run_auth: "run L g evs g' \<Longrightarrow> g_auth g' = g_auth g \<and> g_ccid g' = g_ccid g"
  by (induction rule: run.induct) (auto dest: step_auth)

lemma step_client: "step L g ev g' \<Longrightarrow> client ev = Some key \<Longrightarrow> \<exists>ok. g_auth g = Some ok \<and> ok key"
  by (induction rule: step.induct) auto

lemma run_client:
  assumes "run L g evs g'" and "ev \<in> set evs" and "client ev = Some key"
  shows "\<exists>ok. g_auth g = Some ok \<and> ok key"
  using assms
proof (induction rule: run.induct)
  case (snoc g evs g1 ev' g')
  show ?case
  proof (cases "ev = ev'")
    case True
    then show ?thesis
      using step_client [OF snoc.hyps(2)] run_auth [OF snoc.hyps(1)] snoc.prems(2) by simp
  qed (use snoc in auto)
qed simp

section \<open>The virtual card's process\<close>

lemma handleVPCDRequest_moves:
  "handleVPCDRequest L conn len c = Some (r, conn', c') \<Longrightarrow> card_moves L c c'"
  by (auto simp: handleVPCDRequest_def bind_eq_Some_conv Let_def
      split: if_splits prod.splits intro: card_moves.stay RawCommand_moves)

lemma handleVPCDConnection_moves:
  "handleVPCDConnection L werr conn c = Some (out, c') \<Longrightarrow> card_moves L c c'"
proof (induction "conn_size conn" arbitrary: conn c out rule: less_induct)
  case less
  show ?case
  proof (cases "conn_read 2 conn")
    case (Pair got conn1)
    show ?thesis
    proof (cases got)
      case None
      then show ?thesis
        using less.prems Pair by (subst (asm) handleVPCDConnection.simps) (auto intro: card_moves.stay)
    next
      case (Some bs)
      then obtain res conn2 c2 where
        req: "handleVPCDRequest L conn1 (copy_into (replicate 2 0) bs) c = Some ((res, None), conn2, c2)"
        and rest: "c' = c2 \<or> (\<exists>out2. handleVPCDConnection L werr conn2 c2 = Some (out2, c'))"
        using less.prems Pair
        by (subst (asm) handleVPCDConnection.simps) (auto split: option.splits prod.splits)
      have "conn_size conn2 < conn_size conn"
        using conn_read_size [of 2 conn bs conn1] handleVPCDRequest_conn [OF req] Pair Some by simp
      then have "card_moves L c2 c'"
        using rest less.hyps by (auto intro: card_moves.stay)
      then show ?thesis
        using handleVPCDRequest_moves [OF req] by (rule card_moves_trans)
    qed
  qed
qed

lemma vpcd_step_moves: "vpcd_step L c c' \<Longrightarrow> card_moves L c c'"
  by (elim vpcd_stepE) (auto intro: card_moves.stay card_moves_quiet handleVPCDConnection_moves ServeRPC_quiet)

interpretation vpcd_process: card_host "\<lambda>c. c" vpcd_step
  by unfold_locales (auto intro: sys_moves_card vpcd_step_moves)

end
