(* ===== verification/PinDevice.thy ===== *)
theory PinDevice
  imports System PinMachine
begin

text \<open>
  The PIN machine of \<open>PinMachine\<close> over whole runs: every operation that reaches an initialized
  card (\<open>card_moves\<close>), and so every run of the device of \<open>System\<close>, is a run of the
  abstract machine in which the right passphrase of a key never changes. From it follows where a
  locked key can open.
\<close>

section \<open>Runs of the abstract machine\<close>

text \<open>
  A run is a sequence of guesses, each a passphrase for one of the two keys, and of steps that can
  only lock open keys. Which passphrase is right for which key is fixed.
\<close>

datatype pin_label = Guess pin_ref bytes | Relock

definition relocks :: "pin_state \<Rightarrow> pin_state \<Rightarrow> bool" where
  "relocks s s' \<longleftrightarrow>
     pin_tries s' = pin_tries s \<and>
     (\<forall>r. pin_get r s' = pin_get r s \<or> pin_get r s = Open \<and> pin_get r s' = Locked)"

inductive pin_run :: "(pin_ref \<Rightarrow> bytes \<Rightarrow> bool) \<Rightarrow> pin_state \<Rightarrow> pin_label list \<Rightarrow> pin_state \<Rightarrow> bool" for good where
  stay: "pin_run good s [] s"
| guess: "pin_run good s ops s1 \<Longrightarrow> pw \<noteq> [] \<Longrightarrow> spec_verify (good r pw) r s1 = (answer, s') \<Longrightarrow>
    pin_run good s (ops @ [Guess r pw]) s'"
| relock: "pin_run good s ops s1 \<Longrightarrow> relocks s1 s' \<Longrightarrow> pin_run good s (ops @ [Relock]) s'"

lemma pin_get_set: "pin_get r (pin_set r' k s) = (if r = r' then k else pin_get r s)"
  by (cases r; cases r') simp_all

lemma pin_get_tries [simp]: "pin_get r (s\<lparr>pin_tries := n\<rparr>) = pin_get r s"
  by (cases r) simp_all

lemma pin_tries_set [simp]: "pin_tries (pin_set r k s) = pin_tries s"
  by (cases r) simp_all

text \<open>A wrong guess never opens a key, and leaves every key as it was.\<close>

lemma spec_verify_wrong:
  assumes "spec_verify False r s = (answer, s')"
  shows "pin_get r' s' = pin_get r' s" and "pin_tries s' \<le> pin_tries s"
  using assms by (auto split: key_state.splits if_splits)

lemma spec_verify_opens:
  assumes "spec_verify right k s = (answer, s')" and "pin_get r s = Locked" and "pin_get r s' \<noteq> Locked"
  shows "k = r \<and> right \<and> pin_tries s \<noteq> 0 \<and> answer = Accepted"
  using assms by (auto simp: pin_get_set split: key_state.splits if_splits)

text \<open>A locked key opens only by a right guess.\<close>

lemma pin_run_opens:
  assumes "pin_run good s ops s'" and "pin_get r s = Locked" and "pin_get r s' \<noteq> Locked"
  shows "\<exists>pw. Guess r pw \<in> set ops \<and> good r pw"
  using assms
proof induction
  case (guess s ops s1 pw r' answer s')
  show ?case
  proof (cases "pin_get r s1 = Locked")
    case True
    then have "r' = r \<and> good r' pw"
      using spec_verify_opens [OF guess.hyps(3)] guess.prems(2) by blast
    then show ?thesis
      by auto
  qed (use guess in auto)
next
  case (relock s ops s1 s')
  then have "pin_get r s1 \<noteq> Locked"
    unfolding relocks_def by metis
  with relock show ?case
    by auto
qed simp

text \<open>Without a right guess the tries only go down, and once they are used up nothing opens.\<close>

lemma pin_run_tries:
  assumes "pin_run good s ops s'" and "\<forall>r pw. Guess r pw \<in> set ops \<longrightarrow> \<not> good r pw"
  shows "pin_tries s' \<le> pin_tries s"
  using assms
proof induction
  case (guess s ops s1 pw r answer s')
  then show ?case
    using spec_verify_wrong(2) [of r s1 answer s'] by fastforce
qed (auto simp: relocks_def)

section \<open>The card\<close>

text \<open>
  Which passphrases open a slot: those that decrypt the copy kept from the key ring, which no
  operation changes. A wrong passphrase leaves a key as it was (the library parses a key only
  after its checksum has matched).
\<close>

definition good_passphrase :: "('x) pgplib_scheme \<Rightarrow> card \<Rightarrow> pin_ref \<Rightarrow> bytes \<Rightarrow> bool" where
  "good_passphrase L c r pw \<longleftrightarrow> fst (PkDecrypt L (pin_cache r c) pw) = None"

definition wrong_passphrase_keeps :: "('x) pgplib_scheme \<Rightarrow> bool" where
  "wrong_passphrase_keeps L \<longleftrightarrow>
     (\<forall>k pw. fst (PkDecrypt L k pw) \<noteq> None \<longrightarrow> snd (PkDecrypt L k pw) = k)"

definition slot_fresh :: "card \<Rightarrow> pin_ref \<Rightarrow> bool" where
  "slot_fresh c r \<longleftrightarrow>
     (\<forall>k. slot_key c (pin_key r c) = Some k \<and> pv_Encrypted k \<longrightarrow> k = pin_cache r c)"

definition pin_inv :: "card \<Rightarrow> bool" where
  "pin_inv c \<longleftrightarrow>
     card_inv c \<and> distinct_slots c \<and> (\<forall>r. slot_fresh c r) \<and>
     (slot_key c (c_Dec c) \<noteq> None \<longrightarrow> pv_Fingerprint (c_sig c) \<noteq> pv_Fingerprint (c_dec c))"

lemma abs_slot_key:
  "abs_slot c sk =
     (case slot_key c sk of None \<Rightarrow> Absent | Some k \<Rightarrow> if pv_Encrypted k then Locked else Open)"
  by (auto simp: abs_slot_def slot_key_def split: option.splits)

lemma pin_slots: "pin_key r c \<in> {c_Sig c, c_Dec c}"
  by (cases r) simp_all

lemma pin_identity:
  assumes "card_identity c' = card_identity c"
  shows "pin_key r c' = pin_key r c" and "pin_cache r c' = pin_cache r c"
    and "good_passphrase L c' = good_passphrase L c"
proof -
  show "pin_key r c' = pin_key r c" and *: "pin_cache r c' = pin_cache r c" for r
    using card_identityD [OF assms] by (cases r; simp)+
  show "good_passphrase L c' = good_passphrase L c"
    by (intro ext) (simp add: good_passphrase_def *)
qed

text \<open>The copy a locked key is restored from is its own.\<close>

lemma pin_Restore:
  assumes "pin_inv c" and "slot_key c (pin_key r c) = Some k"
  shows "Restore c (pin_key r c) = Some (pin_cache r c)"
proof -
  have "pv_Fingerprint k = pv_Fingerprint (pin_cache r c)"
    using assms by (cases r) (auto simp: pin_inv_def card_inv_def slot_ok_def slot_key_def)
  then show ?thesis
    using assms by (cases r) (auto simp: Restore_key pin_inv_def)
qed

lemma quiet_pin:
  assumes "quiet_step c c'" and "pin_inv c"
  shows "pin_inv c'" and "relocks (abs_pin c) (abs_pin c')"
proof -
  have inv: "card_inv c" and id: "card_identity c' = card_identity c"
    using assms by (auto simp: pin_inv_def dest: quiet_stepD)
  note [simp] = pin_identity [OF id] card_identityD [OF id]
  have inv': "card_inv c'" and kept: "pins_kept c c'"
    using quiet_stepD(2,6) [OF assms(1) inv] .
  have slot: "slot_key c' (pin_key r c) = slot_key c (pin_key r c) \<or>
      (\<exists>k. slot_key c (pin_key r c) = Some k \<and> \<not> pv_Encrypted k \<and>
           slot_key c' (pin_key r c) = Some (pin_cache r c))" for r
  proof -
    have "slot_relocked c c' (pin_key r c)"
      using kept pin_slots [of r c] unfolding pins_kept_def by blast
    then show ?thesis
      using pin_Restore [OF assms(2), of r] by (auto simp: slot_relocked_def)
  qed
  have "slot_fresh c' r" for r
    using slot [of r] assms(2) by (auto simp: pin_inv_def slot_fresh_def)
  moreover have "slot_key c' (c_Dec c) = None \<longleftrightarrow> slot_key c (c_Dec c) = None"
    using slot [of DecPin] by auto
  ultimately show "pin_inv c'"
    using kept inv' assms(2) by (simp add: pin_inv_def pins_kept_def)
  have "abs_slot c' (pin_key r c) = abs_slot c (pin_key r c) \<or>
      abs_slot c (pin_key r c) = Open \<and> abs_slot c' (pin_key r c) = Locked" for r
    using slot [of r] by (auto simp: abs_slot_key split: if_splits)
  then show "relocks (abs_pin c) (abs_pin c')"
    using quiet_stepD(4) [OF assms(1)] by (simp add: relocks_def)
qed

lemma signal_quiet: "card_inv c \<Longrightarrow> quiet_step c (signalVerificationStatus c)"
  by (simp add: quiet_step_def frame_simps signal_led_ok signal_pins power_ok_cong [OF signal_frame(7)])

lemma relocks_refl [simp]: "relocks s s"
  by (simp add: relocks_def)

text \<open>The guess a \<^verbatim>\<open>Verify\<close> with a passphrase makes; without one it only asks for the status.\<close>

type_synonym guess = "pin_ref \<times> bytes"

definition verify_guess :: "byte \<Rightarrow> bytes \<Rightarrow> guess list" where
  "verify_guess p2 pw =
     (if pw = [] then [] else if p2 = PW1_CDS then [(SigPin, pw)] else if p2 = PW1 then [(DecPin, pw)] else [])"

lemma verify_guess_code: "pw \<noteq> [] \<Longrightarrow> verify_guess (pin_code r) pw = [(r, pw)]"
  by (cases r) (simp_all add: verify_guess_def)

lemma Verify_verify_cases:
  assumes "Verify L PW_VERIFY p2 pw c = Some (r, c')"
  obtains "verify_guess p2 pw = []" "c' = signalVerificationStatus c"
  | k where "p2 = pin_code k" "pw \<noteq> []" "verify_guess p2 pw = [(k, pw)]"
proof (cases "\<exists>k. p2 = pin_code k")
  case True
  then obtain k where k: "p2 = pin_code k" ..
  show ?thesis
  proof (cases "pw = []")
    case True
    then have "c' = signalVerificationStatus c"
      using assms by (auto elim!: Verify_cases verify_pin_cases)
    then show ?thesis
      using True that(1) by (simp add: verify_guess_def)
  qed (use k that verify_guess_code in blast)
next
  case False
  then have none: "p2 \<noteq> PW1_CDS" "p2 \<noteq> PW1"
    using pin_code.simps by metis+
  then have "pin_slot p2 c = None"
    by (simp add: pin_slot_def)
  then have "c' = signalVerificationStatus c"
    using assms by (auto elim!: Verify_cases simp: subkey_priv_def)
  then show ?thesis
    using none that(1) by (simp add: verify_guess_def)
qed

lemma pin_inv_update:
  assumes "pin_inv c"
  shows "card_inv (c\<lparr>c_errorCounterPW1 := n\<rparr>) \<Longrightarrow> pin_inv (c\<lparr>c_errorCounterPW1 := n\<rparr>)"
    and "\<not> pv_Encrypted k \<Longrightarrow>
      card_inv (c\<lparr>c_pkh := (c_pkh c)(p := k), c_errorCounterPW1 := n\<rparr>) \<Longrightarrow>
      pin_inv (c\<lparr>c_pkh := (c_pkh c)(p := k), c_errorCounterPW1 := n\<rparr>)"
proof -
  let ?c1 = "c\<lparr>c_errorCounterPW1 := n\<rparr>" and ?c2 = "c\<lparr>c_pkh := (c_pkh c)(p := k), c_errorCounterPW1 := n\<rparr>"
  have id: "pin_key r ?c1 = pin_key r c" "pin_cache r ?c1 = pin_cache r c"
    "pin_key r ?c2 = pin_key r c" "pin_cache r ?c2 = pin_cache r c" for r
    by (cases r; simp)+
  have fresh: "slot_fresh c r" for r
    using assms by (simp add: pin_inv_def)
  have key: "slot_key ?c1 sk = slot_key c sk"
    "slot_key ?c2 sk = (case subkey_priv c sk of None \<Rightarrow> None | Some (a, q) \<Rightarrow> Some (if q = p then k else c_pkh c q))"
    for sk
    by (auto simp: slot_key_def split: option.splits)
  have dist: "distinct_slots ?c1 = distinct_slots c" "distinct_slots ?c2 = distinct_slots c"
    by (auto simp: distinct_slots_def split: option.splits)
  show "card_inv ?c1 \<Longrightarrow> pin_inv ?c1"
    using assms by (simp add: pin_inv_def slot_fresh_def id key dist)
  assume "\<not> pv_Encrypted k" and inv: "card_inv ?c2"
  then have "slot_fresh ?c2 r" for r
    using fresh [of r] by (auto simp: slot_fresh_def id key slot_key_def split: option.splits if_splits)
  with assms inv show "pin_inv ?c2"
    by (auto simp: pin_inv_def key dist slot_key_def split: option.splits)
qed

text \<open>A guess is one step of the abstract machine.\<close>

lemma Verify_guess:
  assumes "pgp_ok L" and "wrong_passphrase_keeps L" and "pin_inv c" and "pw \<noteq> []"
    and "Verify L PW_VERIFY (pin_code r) pw c = Some (rep, c')"
  shows "pin_inv c'"
    and "\<exists>answer. rep = pin_reply L answer \<and>
      spec_verify (good_passphrase L c r pw) r (abs_pin c) = (answer, abs_pin c')"
proof -
  have inv: "card_inv c" "distinct_slots c"
    using assms(3) by (simp_all add: pin_inv_def)
  have id: "card_identity c' = card_identity c"
    using assms(5) by (rule Verify_identity)
  have signal: "pin_inv (signalVerificationStatus c1) = pin_inv c1" for c1
    unfolding pin_inv_def slot_fresh_def slot_key_def pin_identity [OF signal_frame(2)] signal_inv
      card_identityD [OF signal_frame(2)] distinct_slots_def same_keys_slots(1) [OF signal_frame(1)]
      same_keysD [OF signal_frame(1)] ..
  show "pin_inv c'"
    using assms(5)
  proof (cases rule: Verify_cases)
    case (2 a p c1)
    have "card_inv c1"
      using verify_pin_inv [OF assms(1) 2(3) inv(1)] .
    moreover have "c1 = c \<or> (\<exists>n. c1 = c\<lparr>c_errorCounterPW1 := n\<rparr>) \<or>
        (\<exists>k n. \<not> pv_Encrypted k \<and> c1 = c\<lparr>c_pkh := (c_pkh c)(p := k), c_errorCounterPW1 := n\<rparr>)"
      using 2(3)
    proof (cases rule: verify_pin_cases)
      case (2 k)
      then show ?thesis
        using assms(1) unfolding pgp_ok_def by (metis fst_conv snd_conv)
    next
      case (3 e k)
      then have "k = c_pkh c p"
        using assms(2) unfolding wrong_passphrase_keeps_def by (metis fst_conv option.distinct(1) snd_conv)
      with 3(6) have "c1 = c\<lparr>c_errorCounterPW1 := c_errorCounterPW1 c - 1\<rparr>"
        by simp
      then show ?thesis
        by blast
    qed simp
    ultimately have "pin_inv c1"
      using assms(3) pin_inv_update by blast
    then show ?thesis
      using 2(4) signal by simp
  qed (use assms(3) signal in auto)
  have same: "spec_verify b r s = spec_verify b' r s" if "pin_get r s \<noteq> Locked" for b b' s
    using that by (auto split: key_state.split)
  have "passphrase_ok L c (pin_key r c) pw = good_passphrase L c r pw"
    if "pin_get r (abs_pin c) = Locked"
  proof -
    from that obtain a p where p: "subkey_priv c (pin_key r c) = Some (a, p)" "pv_Encrypted (c_pkh c p)"
      by (auto simp: abs_slot_def split: option.splits if_splits)
    then have "c_pkh c p = pin_cache r c"
      using assms(3) by (auto simp: pin_inv_def slot_fresh_def slot_key_def)
    then show ?thesis
      using p by (simp add: passphrase_ok_def good_passphrase_def)
  qed
  then have spec: "spec_verify (passphrase_ok L c (pin_key r c) pw) r (abs_pin c) =
      spec_verify (good_passphrase L c r pw) r (abs_pin c)"
    by (cases "pin_get r (abs_pin c) = Locked") (simp, rule same)
  obtain answer s' where "spec_verify (good_passphrase L c r pw) r (abs_pin c) = (answer, s')"
    by (metis surj_pair)
  with verify_refines [OF assms(1) inv(2) assms(4)] spec assms(5) show "\<exists>answer. rep = pin_reply L answer \<and>
      spec_verify (good_passphrase L c r pw) r (abs_pin c) = (answer, abs_pin c')"
    by (metis Pair_inject option.inject)
qed

section \<open>The refinement\<close>

text \<open>
  The moves of a card, with the guesses they make in order: every \<^verbatim>\<open>Verify\<close> with a passphrase is
  recorded, everything else is quiet.
\<close>

inductive guess_moves :: "('x) pgplib_scheme \<Rightarrow> card \<Rightarrow> guess list \<Rightarrow> card \<Rightarrow> bool" for L where
  stay: "guess_moves L c [] c"
| quiet: "guess_moves L c gs c1 \<Longrightarrow> quiet_step c1 c' \<Longrightarrow> guess_moves L c gs c'"
| verify: "guess_moves L c gs c1 \<Longrightarrow> Verify L PW_VERIFY p2 pw c1 = Some (r, c') \<Longrightarrow>
    guess_moves L c (gs @ verify_guess p2 pw) c'"

lemma guess_moves_card: "guess_moves L c gs c' \<Longrightarrow> card_moves L c c'"
  by (induction rule: guess_moves.induct) (auto intro: card_moves.intros)

lemma card_moves_guess: "card_moves L c c' \<Longrightarrow> \<exists>gs. guess_moves L c gs c'"
proof (induction rule: card_moves.induct)
  case (verify c c1 p1 p2 pw r c')
  then show ?case
    by (cases "p1 = PW_VERIFY") (blast intro: guess_moves.intros dest: Verify_quiet)+
qed (blast intro: guess_moves.intros)+

lemma guess_moves_trans:
  assumes "guess_moves L c1 gs2 c2" and "guess_moves L c gs1 c1"
  shows "guess_moves L c (gs1 @ gs2) c2"
  using assms
  by (induction rule: guess_moves.induct) (auto simp flip: append_assoc intro: guess_moves.intros)

lemma guess_moves_quiet: "quiet_step c c' \<Longrightarrow> guess_moves L c [] c'"
  by (rule guess_moves.quiet [OF guess_moves.stay])

lemma guess_moves_verify: "Verify L PW_VERIFY p2 pw c = Some (r, c') \<Longrightarrow> guess_moves L c (verify_guess p2 pw) c'"
  using guess_moves.verify [OF guess_moves.stay] by fastforce

text \<open>The guesses of an abstract run.\<close>

fun guesses_of :: "pin_label list \<Rightarrow> guess list" where
  "guesses_of [] = []"
| "guesses_of (Guess r pw # ops) = (r, pw) # guesses_of ops"
| "guesses_of (Relock # ops) = guesses_of ops"

lemma guesses_of_append [simp]: "guesses_of (ops @ ops') = guesses_of ops @ guesses_of ops'"
  by (induction ops rule: guesses_of.induct) simp_all

lemma guesses_of_mem: "(r, pw) \<in> set (guesses_of ops) \<longleftrightarrow> Guess r pw \<in> set ops"
  by (induction ops rule: guesses_of.induct) auto

text \<open>The abstract machine makes the same guesses, all of them and in the same order.\<close>

lemma guess_moves_pin:
  assumes "guess_moves L c gs c'" and "pgp_ok L" and "wrong_passphrase_keeps L" and "pin_inv c"
  shows "pin_inv c' \<and> (\<exists>ops. pin_run (good_passphrase L c) (abs_pin c) ops (abs_pin c') \<and> guesses_of ops = gs)"
  using assms(1,4)
proof induction
  case (stay c)
  have "guesses_of [] = []"
    by simp
  with stay show ?case
    using pin_run.stay by blast
next
  case (quiet c gs c1 c')
  then obtain ops where "pin_inv c1" "pin_run (good_passphrase L c) (abs_pin c) ops (abs_pin c1)"
    and gs: "guesses_of (ops @ [Relock]) = gs"
    by auto
  then show ?case
    using quiet_pin [OF quiet.hyps(2)] pin_run.relock gs by blast
next
  case (verify c gs c1 p2 pw rep c')
  then obtain ops where inv: "pin_inv c1" "card_inv c1"
    and ops: "pin_run (good_passphrase L c) (abs_pin c) ops (abs_pin c1)" and gs: "guesses_of ops = gs"
    by (auto simp: pin_inv_def)
  have good: "good_passphrase L c1 = good_passphrase L c"
    by (rule pin_identity(3) [OF card_moves_identity [OF guess_moves_card [OF verify.hyps(1)]]])
  show ?case
    using verify.hyps(2)
  proof (cases rule: Verify_verify_cases)
    case 1
    then have "quiet_step c1 c'"
      using signal_quiet [OF inv(2)] by simp
    note step = quiet_pin [OF this inv(1)]
    have "guesses_of (ops @ [Relock]) = gs @ verify_guess p2 pw"
      using gs 1(1) by simp
    with step(1) pin_run.relock [OF ops step(2)] show ?thesis
      by blast
  next
    case (2 k)
    note step = Verify_guess [OF assms(2,3) inv(1) 2(2) verify.hyps(2) [unfolded 2(1)], unfolded good]
    then obtain answer where "spec_verify (good_passphrase L c k pw) k (abs_pin c1) = (answer, abs_pin c')"
      by blast
    note run = pin_run.guess [OF ops 2(2) this]
    have "guesses_of (ops @ [Guess k pw]) = gs @ verify_guess p2 pw"
      using gs 2(3) by simp
    with run step(1) show ?thesis
      by blast
  qed
qed

lemma card_moves_pin:
  assumes "card_moves L c c'" and "pgp_ok L" and "wrong_passphrase_keeps L" and "pin_inv c"
  shows "pin_inv c' \<and> (\<exists>ops. pin_run (good_passphrase L c) (abs_pin c) ops (abs_pin c'))"
  using card_moves_guess [OF assms(1)] guess_moves_pin [OF _ assms(2-4)] by blast

text \<open>
  A locked key opens in one place only: \<^verbatim>\<open>Verify\<close> accepting the key's passphrase while there
  are tries left.
\<close>

lemma card_moves_unlock:
  assumes "card_moves L c c'" and "pgp_ok L" and "wrong_passphrase_keeps L" and "pin_inv c"
    and "pin_get r (abs_pin c) = Locked"
  shows "pin_get r (abs_pin c') = Locked \<or>
    (\<exists>c1 pw c2. card_moves L c c1 \<and> card_moves L c2 c' \<and> pw \<noteq> [] \<and> good_passphrase L c r pw \<and>
       c_errorCounterPW1 c1 \<noteq> 0 \<and>
       Verify L PW_VERIFY (pin_code r) pw c1 = Some ((Some (CommandCompleted []), None), c2))"
  using assms(1,4,5)
proof induction
  case (quiet c c1 c')
  then have "pin_inv c1"
    using card_moves_pin assms(2,3) by blast
  with quiet_pin(2) [OF quiet.hyps(2)] have "relocks (abs_pin c1) (abs_pin c')" .
  then have "pin_get r (abs_pin c1) = Locked \<Longrightarrow> pin_get r (abs_pin c') = Locked"
    unfolding relocks_def by (metis key_state.distinct(5))
  with quiet show ?case
    using card_moves.quiet [OF _ quiet.hyps(2)] by blast
next
  case (verify c c1 p1 p2 pw rep c')
  show ?case
  proof (cases "pin_get r (abs_pin c1) = Locked \<and> pin_get r (abs_pin c') \<noteq> Locked")
    case True
    have inv: "pin_inv c1" "card_inv c1"
      using verify card_moves_pin assms(2,3) by (auto simp: pin_inv_def)
    have notq: "\<not> quiet_step c1 c'"
      using quiet_pin(2) [of c1 c'] inv(1) True unfolding relocks_def by (metis key_state.distinct(5))
    then have p1: "p1 = PW_VERIFY"
      using Verify_quiet [OF verify.hyps(2)] by blast
    note run = verify.hyps(2) [unfolded p1]
    from run notq signal_quiet [OF inv(2)] obtain k where k: "p2 = pin_code k" "pw \<noteq> []"
      by (cases rule: Verify_verify_cases) auto
    obtain answer where rep: "rep = pin_reply L answer"
      and step: "spec_verify (good_passphrase L c1 k pw) k (abs_pin c1) = (answer, abs_pin c')"
      using Verify_guess(2) [OF assms(2,3) inv(1) k(2) run [unfolded k(1)]] by blast
    have "k = r" and "good_passphrase L c1 k pw" and "pin_tries (abs_pin c1) \<noteq> 0" and "answer = Accepted"
      using spec_verify_opens [OF step] True by blast+
    then have "Verify L PW_VERIFY (pin_code r) pw c1 = Some ((Some (CommandCompleted []), None), c')"
      and "good_passphrase L c r pw" and "c_errorCounterPW1 c1 \<noteq> 0"
      using run k rep pin_identity(3) [OF card_moves_identity [OF verify.hyps(1)], of L]
      by (auto simp: unat_eq_zero)
    then show ?thesis
      using verify.hyps(1) card_moves.stay [of L c'] k(2) by blast
  next
    case False
    then show ?thesis
      using verify card_moves.verify [OF _ verify.hyps(2)] by blast
  qed
qed simp

section \<open>Initialization\<close>

text \<open>
  A card whose key ring has different signing and decryption subkeys with different fingerprints
  starts as such a machine, with every key as the ring has it.
\<close>

lemma Init_pin_inv:
  assumes "Init L c = Some (None, c')" and "fresh c"
    and "\<forall>armored ent. decodeArmoredKey L armored = (Some ent, None) \<longrightarrow> entity_ok ent"
    and "distinct_slots c'" and "slot_key c' (c_Dec c') \<noteq> None \<Longrightarrow> pv_Fingerprint (c_sig c') \<noteq> pv_Fingerprint (c_dec c')"
  shows "pin_inv c'"
  using assms(1)
proof (cases rule: Init_success)
  case (1 ent armored c3)
  have same: "same_keys c3 c'" and id: "card_identity c' = card_identity c3"
    unfolding 1(4) by (simp_all add: same_keys_def frame_simps [unfolded same_keys_def] frame_simps)
  have "slot_key c' sk = slot_key c3 sk" for sk
    by (simp add: slot_key_def same_keys_slots(1) [OF same] same_keysD [OF same])
  moreover have "slot_fresh c3 r" for r
    by (cases r; cases "decodeSubkeys (subkey_cells ent)")
      (auto simp: slot_fresh_def 1(3) load_entity_def Let_def slot_key_def cached_def subkey_priv_def
        split: option.splits)
  ultimately have "slot_fresh c' r" for r
    by (simp add: slot_fresh_def pin_identity [OF id])
  then show ?thesis
    using Init_ok [OF assms(1-3)] assms(4,5) by (auto simp: pin_inv_def)
qed

section \<open>The device\<close>

lemma run_card_moves: "run L g evs g' \<Longrightarrow> c_initialized (g_card g) \<Longrightarrow> card_moves L (g_card g) (g_card g')"
  by (rule sys_moves_initialized [OF device.reach_moves [OF run_reach]])

lemma verify_all_returns:
  assumes "pgp_ok L" and "card_inv c"
  shows "\<exists>err c'. verify_all L p1 pass pws c = Some (err, c')"
  using assms(2)
proof (induction pws arbitrary: c)
  case (Cons pw pws)
  then obtain r err c1 where step: "Verify L p1 pw pass c = Some ((r, err), c1)"
    using Verify_returns [OF Cons.prems, of L p1 pw pass] by auto
  then have "card_inv c1"
    using Verify_inv assms(1) Cons.prems by blast
  then show ?case
    using Cons.IH step by auto
qed simp

text \<open>A session of the console that unlocks with a passphrase typed at its prompt.\<close>

lemma unlock_pattern:
  "pageCommandPattern ''unlock all'' = None" "lockCommandPattern ''unlock all'' = Some (''unlock'', ''all'')"
  by (simp_all add: pageCommandPattern_def lockCommandPattern_def lock_match_def lock_arg_def)

lemma unlock_all_command:
  assumes "verify_all L PW_VERIFY (str_bytes pw) (lock_pws ''all'') (co_card con) = Some (err, c')"
    and "Initialized (co_card con)" and "co_input con = [(pw, None)]"
  shows "\<exists>con'. handleCommand L rw ''unlock all'' con = Some (None, con') \<and> co_input con' = [] \<and> co_card con' = c'"
proof -
  have "lock_pws ''all'' \<noteq> []"
    by (simp add: lock_pws_def)
  then have "lockCommand L ''unlock'' ''all'' con = Some (error_string err, con\<lparr>co_input := [], co_card := c'\<rparr>)"
    using assms by (simp add: lockCommand_def term_read_def)
  then show ?thesis
    by (simp add: handleCommand_def unlock_pattern println_def term_write_def)
qed

lemma unlock_all_terminal:
  assumes "verify_all L PW_VERIFY (str_bytes pw) (lock_pws ''all'') (co_card con) = Some (err, c')"
    and "Initialized (co_card con)" and "co_input con = [(''unlock all'', None), (pw, None)]"
  shows "\<exists>con'. handleTerminal L rw ban con = Some con' \<and> co_card con' = c'"
proof -
  define con1 where "con1 = term_write (EscCyan L @ help_text @ EscReset L @ newline) (term_write (ban @ newline) con)"
  have con1: "co_card con1 = co_card con" "co_input con1 = [(''unlock all'', None), (pw, None)]"
    by (simp_all add: con1_def term_write_def assms(3))
  then obtain con2 where "handleCommand L rw ''unlock all'' (con1\<lparr>co_input := [(pw, None)]\<rparr>) = Some (None, con2)"
    "co_input con2 = []" "co_card con2 = c'"
    using unlock_all_command [of L pw "con1\<lparr>co_input := [(pw, None)]\<rparr>" err c' rw] assms(1,2) by auto
  moreover have "handleTerminal L rw ban con = terminal_loop L rw con1"
    by (simp add: handleTerminal_def con1_def)
  ultimately show ?thesis
    by (simp add: terminal_loop.simps [of _ _ con1] terminal_loop.simps [of _ _ con2] con1(2))
qed

lemma unlock_all_run:
  assumes "running g" and "g_auth g = Some ok" and "ok key" and "Initialized (g_card g)"
    and "verify_all L PW_VERIFY (str_bytes pw) (lock_pws ''all'') (g_card g) = Some (err, c')"
  shows "\<exists>g'. run L g [Terminal key [] [(''unlock all'', None), (pw, None)]] g' \<and> g_card g' = c'"
proof -
  let ?con = "(g_con g)\<lparr>co_input := [(''unlock all'', None), (pw, None)]\<rparr>"
  obtain con where "handleTerminal L [] (Banner L) ?con = Some con" "co_card con = c'"
    using unlock_all_terminal [of L pw ?con err c' "[]" "Banner L"] assms(4,5) by (auto simp: g_card_def)
  then show ?thesis
    using run.snoc [OF run.start step.terminal [OF assms(1-3)]]
    by (intro exI [of _ "g\<lparr>g_con := con\<rparr>"]) simp
qed

section \<open>Properties\<close>

text \<open>
  From an initialized card on, every run of the device refines the abstract PIN machine: whatever
  USB traffic, console sessions, PKCS\#11 requests, user presence and timers arrive in whatever order, the
  two keys and the shared tries only change by guesses of one fixed right passphrase each and by
  locking.
\<close>

theorem device_refines_pin:
  assumes "run L g evs g'" and "pgp_ok L" and "wrong_passphrase_keeps L"
    and "c_initialized (g_card g)" and "pin_inv (g_card g)"
  shows "\<exists>ops. pin_run (good_passphrase L (g_card g)) (abs_pin (g_card g)) ops (abs_pin (g_card g'))"
  using card_moves_pin [OF run_card_moves [OF assms(1,4)] assms(2,3,5)] by blast

definition demo_device :: gokey where
  "demo_device = \<lparr>g_con = sample_console sample_card, g_queue = None, g_ccid = True,
     g_auth = Some (\<lambda>key. key = [9]), g_usb = blank_device, g_port = USB1\<rparr>"

lemma demo_device_simps [simp]:
  "g_card demo_device = sample_card" "running demo_device" "g_auth demo_device = Some (\<lambda>key. key = [9])"
  by (simp_all add: demo_device_def g_card_def running_def sample_console_def)

lemma sample_boot_keeps: "wrong_passphrase_keeps sample_boot"
  by (simp add: wrong_passphrase_keeps_def sample_boot_defs sample_PkDecrypt_def)

lemma sample_card_pin_inv: "pin_inv sample_card"
  unfolding pin_inv_def
proof (intro conjI allI)
  show "slot_fresh sample_card r" for r
    by (cases r) (simp_all add: slot_fresh_def slot_key_def)
qed (simp_all add: sample_card_pins sample_key_defs)

text \<open>The signature passphrase opens the signature key and costs a try for the other one.\<close>

lemma sample_unlock_all:
  "\<exists>err c'. verify_all sample_boot PW_VERIFY (str_bytes [CHR 0x01, CHR 0x02]) (lock_pws ''all'') sample_card =
     Some (err, c') \<and> abs_pin c' = \<lparr>pin_sig = Open, pin_dec = Locked, pin_tries = 2\<rparr>"
proof -
  have pws: "lock_pws ''all'' = [PW1_CDS, PW1]"
    by (simp add: lock_pws_def)
  have pass: "str_bytes [CHR 0x01, CHR 0x02] = [1, 2]"
    by (simp add: str_bytes_def)
  have good: "good_passphrase sample_boot sample_card SigPin [1, 2]"
    "\<not> good_passphrase sample_boot sample_card DecPin [1, 2]"
    by (simp_all add: good_passphrase_def sample_boot_defs sample_key_defs)
  obtain r1 c1 where v1: "Verify sample_boot PW_VERIFY (pin_code SigPin) [1, 2] sample_card = Some (r1, c1)"
    using Verify_returns [OF sample_card_pins(3)] by fastforce
  note g1 = Verify_guess [OF sample_boot_pgp sample_boot_keeps sample_card_pin_inv _ v1]
  then have abs1: "abs_pin c1 = \<lparr>pin_sig = Open, pin_dec = Locked, pin_tries = 3\<rparr>" and inv1: "pin_inv c1"
    and r1: "snd r1 = None"
    using good by (auto simp: sample_card_pins)
  obtain r2 c2 where v2: "Verify sample_boot PW_VERIFY (pin_code DecPin) [1, 2] c1 = Some (r2, c2)"
    using Verify_returns [of c1] inv1 by (fastforce simp: pin_inv_def)
  have good1: "\<not> good_passphrase sample_boot c1 DecPin [1, 2]"
    unfolding pin_identity(3) [OF Verify_identity [OF v1]] by (rule good(2))
  note g2 = Verify_guess(2) [OF sample_boot_pgp sample_boot_keeps inv1 _ v2]
  then have "abs_pin c2 = \<lparr>pin_sig = Open, pin_dec = Locked, pin_tries = 2\<rparr>" and "snd r2 = None"
    using good1 by (auto simp: abs1)
  then show ?thesis
    using v1 v2 r1 by (cases r1; cases r2) (simp add: pws pass)
qed

lemma demo_unlock:
  obtains g' where "run sample_boot demo_device [Terminal [9] [] [(''unlock all'', None), ([CHR 0x01, CHR 0x02], None)]] g'"
    and "abs_pin (g_card g') = \<lparr>pin_sig = Open, pin_dec = Locked, pin_tries = 2\<rparr>"
proof -
  obtain err c' where c': "verify_all sample_boot PW_VERIFY (str_bytes [CHR 0x01, CHR 0x02]) (lock_pws ''all'')
      (g_card demo_device) = Some (err, c')" "abs_pin c' = \<lparr>pin_sig = Open, pin_dec = Locked, pin_tries = 2\<rparr>"
    using sample_unlock_all by auto
  show ?thesis
    using unlock_all_run [of demo_device _ "[9]", OF _ _ _ _ c'(1)] c'(2) that by (auto simp: Initialized_def)
qed

theorem device_refines_pin_witness:
  "\<exists>g' ops. run sample_boot demo_device [Terminal [9] [] [(''unlock all'', None), ([CHR 0x01, CHR 0x02], None)]] g' \<and>
     pin_run (good_passphrase sample_boot sample_card) \<lparr>pin_sig = Locked, pin_dec = Locked, pin_tries = 3\<rparr>
       ops \<lparr>pin_sig = Open, pin_dec = Locked, pin_tries = 2\<rparr>"
proof -
  obtain g' where g': "run sample_boot demo_device [Terminal [9] [] [(''unlock all'', None), ([CHR 0x01, CHR 0x02], None)]] g'"
    "abs_pin (g_card g') = \<lparr>pin_sig = Open, pin_dec = Locked, pin_tries = 2\<rparr>"
    by (rule demo_unlock)
  show ?thesis
    using device_refines_pin [OF g'(1) sample_boot_pgp sample_boot_keeps] sample_card_pin_inv g'
    by (auto simp: sample_card_pins(1))
qed

text \<open>
  Whenever a locked signature or decryption key is found open later, then at some point of the run, with tries
  left, \<^verbatim>\<open>Verify\<close> accepted that very key's passphrase for it: no other command, no other
  key's passphrase and no interleaving opens it.
\<close>

theorem device_unlock_needs_passphrase:
  assumes "run L g evs g'" and "pgp_ok L" and "wrong_passphrase_keeps L"
    and "c_initialized (g_card g)" and "pin_inv (g_card g)"
    and "slot_locked (g_card g) (pin_key r (g_card g))" and "\<not> slot_locked (g_card g') (pin_key r (g_card g'))"
  shows "\<exists>c1 pw c2. card_moves L (g_card g) c1 \<and> c_errorCounterPW1 c1 \<noteq> 0 \<and>
     pw \<noteq> [] \<and> good_passphrase L (g_card g) r pw \<and>
     Verify L PW_VERIFY (pin_code r) pw c1 = Some ((Some (CommandCompleted []), None), c2) \<and>
     card_moves L c2 (g_card g')"
proof -
  have "slot_locked c (pin_key r c) \<longleftrightarrow> pin_get r (abs_pin c) = Locked" for c
    by (auto simp: slot_locked_key abs_slot_key split: option.splits)
  then show ?thesis
    using card_moves_unlock [OF run_card_moves [OF assms(1,4)] assms(2,3,5), of r] assms(6,7) by blast
qed

theorem device_unlock_needs_passphrase_witness:
  "\<exists>g' c1 pw. run sample_boot demo_device [Terminal [9] [] [(''unlock all'', None), ([CHR 0x01, CHR 0x02], None)]] g' \<and>
     \<not> slot_locked (g_card g') (pin_key SigPin (g_card g')) \<and>
     card_moves sample_boot sample_card c1 \<and> good_passphrase sample_boot sample_card SigPin pw"
proof -
  obtain g' where g': "run sample_boot demo_device [Terminal [9] [] [(''unlock all'', None), ([CHR 0x01, CHR 0x02], None)]] g'"
    "abs_pin (g_card g') = \<lparr>pin_sig = Open, pin_dec = Locked, pin_tries = 2\<rparr>"
    by (rule demo_unlock)
  have "pin_get SigPin (abs_pin (g_card g')) = Open"
    by (simp only: g'(2) pin_get.simps pin_state.simps)
  then have "\<not> slot_locked (g_card g') (pin_key SigPin (g_card g'))"
    by (auto simp: slot_locked_key abs_slot_key)
  moreover have "slot_locked sample_card (pin_key SigPin sample_card)"
    by (simp add: slot_locked_key slot_key_def sample_key_defs)
  ultimately show ?thesis
    using device_unlock_needs_passphrase [OF g'(1) sample_boot_pgp sample_boot_keeps, of SigPin] sample_card_pin_inv g'(1)
    by auto
qed

end
