(* ===== verification/Presented.thy ===== *)
theory Presented
  imports PinDevice
begin

text \<open>
  Where the guesses of a device run come from. Each event makes the guesses its bytes or its typed lines
  amount to, through the APDU of a USB message (\<^verbatim>\<open>src/internal/ccid\<close>,
  \<^verbatim>\<open>src/internal/icc/interface.go\<close>) or a line of a console session
  (\<^verbatim>\<open>src/internal/usb/ssh.go\<close>). The theory follows a passphrase from the event down to
  \<^verbatim>\<open>Verify\<close>, shows that a run is a run of the PIN machine with exactly these guesses, and what it can
  do without the right one.
\<close>

section \<open>The guesses of an event\<close>

text \<open>
  A VERIFY command with a passphrase is one guess. It is read from the data of an XfrBlock message, the last bytes
  of the message as far as its length field says.
\<close>

definition command_guesses :: "capdu \<Rightarrow> guess list" where
  "command_guesses cmd =
     (if CLA cmd = 0 \<and> INS cmd = INS_VERIFY \<and> P1 cmd = PW_VERIFY then verify_guess (P2 cmd) (CData cmd) else [])"

definition apdu_guesses :: "('x) apdulib_scheme \<Rightarrow> bytes \<Rightarrow> guess list" where
  "apdu_guesses L apdu = (case Unmarshal L apdu of (cmd, None) \<Rightarrow> command_guesses cmd | (_, Some _) \<Rightarrow> [])"

definition message_guesses :: "('x) apdulib_scheme \<Rightarrow> bytes \<Rightarrow> guess list" where
  "message_guesses L buf =
     (if buf = [] \<or> hd buf \<noteq> XFR_BLOCK then []
      else
        case read_XfrBlock buf of
          None \<Rightarrow> []
        | Some msg \<Rightarrow>
            if xb_LevelParameter msg \<noteq> 0 then []
            else (case Data buf (m_Length msg) of None \<Rightarrow> [] | Some apdu \<Rightarrow> apdu_guesses L apdu))"

text \<open>
  A line typed at the console is a guess for each key it names if it is an unlock command: the passphrase is the line
  that follows it.
\<close>

definition passphrase_guesses :: "string \<Rightarrow> (string \<times> goerr option) list \<Rightarrow> guess list" where
  "passphrase_guesses arg lines =
     (case lines of
        (pw, None) # _ \<Rightarrow> concat (map (\<lambda>p2. verify_guess p2 (str_bytes pw)) (lock_pws arg))
      | _ \<Rightarrow> [])"

definition line_guesses :: "string \<Rightarrow> (string \<times> goerr option) list \<Rightarrow> guess list" where
  "line_guesses cmd lines =
     (if cmd \<in> {''exit'', ''quit'', ''help'', ''init'', ''rpc'', ''u2f'', ''u2f !test'', ''p'', ''rand'',
          ''reboot'', ''status'', ''build''} \<or> pageCommandPattern cmd \<noteq> None
      then []
      else
        case lockCommandPattern cmd of
          Some (op, arg) \<Rightarrow> if op = ''unlock'' then passphrase_guesses arg lines else []
        | None \<Rightarrow> [])"

text \<open>
  A terminal session makes the guesses of its command lines, until one of them ends it; the lines a command
  has read are not commands.
\<close>

function terminal_guesses :: "('x) conslib_scheme \<Rightarrow> bytes \<Rightarrow> console \<Rightarrow> guess list" where
  "terminal_guesses L rw con =
     (case co_input con of
        [] \<Rightarrow> []
      | (cmd, err) # rest \<Rightarrow>
          if err = Some EOF then []
          else if err \<noteq> None then terminal_guesses L rw (con\<lparr>co_input := rest\<rparr>)
          else
            line_guesses cmd rest @
            (case handleCommand L rw cmd (con\<lparr>co_input := rest\<rparr>) of
               None \<Rightarrow> []
             | Some (err2, con2) \<Rightarrow> if err2 = Some EOF then [] else terminal_guesses L rw con2))"
  by pat_completeness auto
termination
  by (relation "measure (\<lambda>(L, rw, con). length (co_input con))")
    (auto dest!: handleCommand_input)

declare terminal_guesses.simps [simp del]

fun request_guesses :: "ssh_request list \<Rightarrow> (string \<times> goerr option) list \<Rightarrow> guess list" where
  "request_guesses [] lines = []"
| "request_guesses (req # reqs) lines =
     (case session_action req of
        None \<Rightarrow> []
      | Some (Exec cmd) \<Rightarrow> line_guesses cmd lines
      | Some _ \<Rightarrow> request_guesses reqs lines)"

definition greeted :: "('x) bootlib_scheme \<Rightarrow> console \<Rightarrow> console" where
  "greeted L con = term_write (EscCyan L @ help_text @ EscReset L @ newline) (term_write (Banner L @ newline) con)"

fun event_guesses :: "('x) bootlib_scheme \<Rightarrow> gokey \<Rightarrow> event \<Rightarrow> guess list" where
  "event_guesses L g (UsbOut buf) = message_guesses L buf"
| "event_guesses L g (Channel key ty rw reqs lines) = (if ty = ''session'' then request_guesses reqs lines else [])"
| "event_guesses L g (Terminal key rw lines) = terminal_guesses L rw (greeted L ((g_con g)\<lparr>co_input := lines\<rparr>))"
| "event_guesses L g (Line key rw cmd lines) = line_guesses cmd lines"
| "event_guesses L g _ = []"

text \<open>A run of the device with the guesses its events make, in order.\<close>

inductive guess_run :: "('x) bootlib_scheme \<Rightarrow> gokey \<Rightarrow> event list \<Rightarrow> guess list \<Rightarrow> gokey \<Rightarrow> bool" for L where
  start: "guess_run L g [] [] g"
| snoc: "guess_run L g evs gs g1 \<Longrightarrow> step L g1 ev g' \<Longrightarrow>
    guess_run L g (evs @ [ev]) (gs @ event_guesses L g1 ev) g'"

lemma guess_run_run: "guess_run L g evs gs g' \<Longrightarrow> run L g evs g'"
  by (induction rule: guess_run.induct) (auto intro: run.intros)

lemma run_guess_run: "run L g evs g' \<Longrightarrow> \<exists>gs. guess_run L g evs gs g'"
  by (induction rule: run.induct) (blast intro: guess_run.intros)+

section \<open>The reader\<close>

lemma Command_guess:
  assumes "Command L cmd c = Some (r, c')"
  shows "guess_moves L c (command_guesses cmd) c'"
proof (cases "CLA cmd = 0 \<and> INS cmd = INS_VERIFY \<and> P1 cmd = PW_VERIFY")
  case True
  then show ?thesis
    using assms by (auto simp: Command_def dispatch_def bind_eq_Some_conv command_guesses_def intro: guess_moves_verify)
next
  case False
  then have "quiet_step c c'"
    using assms by (elim Command_cases) auto
  then show ?thesis
    using False by (auto simp: command_guesses_def intro: guess_moves_quiet)
qed

lemma RawCommand_guess: "RawCommand L apdu c = Some (r, c') \<Longrightarrow> guess_moves L c (apdu_guesses L apdu) c'"
  by (auto simp: RawCommand_def apdu_guesses_def bind_eq_Some_conv split: prod.splits option.splits
      intro: guess_moves.stay Command_guess)

lemma XfrBlock_guess:
  assumes "XfrBlock_Handle L msg buf c = Some (r, c')"
  shows "guess_moves L c (if xb_LevelParameter msg \<noteq> 0 then []
    else case Data buf (m_Length msg) of None \<Rightarrow> [] | Some apdu \<Rightarrow> apdu_guesses L apdu) c'"
  using assms
  by (auto simp: XfrBlock_Handle_def Let_def bind_eq_Some_conv split: if_splits intro: guess_moves.stay RawCommand_guess)

lemma Rx_guess:
  assumes "Rx L buf c = Some (r, c')"
  shows "guess_moves L c (message_guesses L buf) c'"
proof (cases "buf \<noteq> [] \<and> hd buf = XFR_BLOCK")
  case True
  then have "buf ! 0 = XFR_BLOCK"
    by (auto simp: hd_conv_nth)
  then have "ccid_read_handle (read_XfrBlock buf) (\<lambda>cmd. XfrBlock_Handle L cmd buf) (Wake c) = Some (r, c')"
    using assms True by (simp add: Rx_def del: read_XfrBlock.simps)
  then have "guess_moves L (Wake c) (message_guesses L buf) c'"
  proof (cases "read_XfrBlock buf")
    case (Some msg)
    then have "XfrBlock_Handle L msg buf (Wake c) = Some (r, c')"
      using \<open>ccid_read_handle _ _ _ = _\<close> by (simp add: ccid_read_handle_def)
    from XfrBlock_guess [OF this] show ?thesis
      using True Some by (simp add: message_guesses_def del: read_XfrBlock.simps)
  qed (simp add: ccid_read_handle_def message_guesses_def guess_moves.stay del: read_XfrBlock.simps)
  from guess_moves_trans [OF this guess_moves_quiet [OF Wake_quiet]] show ?thesis
    by simp
next
  case False
  then have "c' = awakened buf c" and "message_guesses L buf = []"
    using assms by (auto simp: Rx_def awakened_def ccid_read_handle_def message_guesses_def Let_def hd_conv_nth
        simp del: read_XfrBlock.simps read_IccPowerOn.simps read_rfu3_msg.simps split: if_splits option.splits)
  then show ?thesis
    by (simp add: guess_moves_quiet)
qed

section \<open>The console\<close>

lemma Verify_no_error: "Verify L p1 p2 pw c = Some ((r, e), c') \<Longrightarrow> e = None"
  by (auto simp: Verify_alt lock_key_def verify_pin_def Let_def split: option.splits if_splits prod.splits)

lemma verify_all_Cons:
  assumes "verify_all L p1 pass (pw # pws) c = Some (err, c')"
  obtains r c1 where "Verify L p1 pw pass c = Some (r, c1)" "verify_all L p1 pass pws c1 = Some (err, c')"
proof -
  obtain r e c1 where step: "Verify L p1 pw pass c = Some ((r, e), c1)"
    and rest: "(if e \<noteq> None then Some (e, c1) else verify_all L p1 pass pws c1) = Some (err, c')"
    using assms by (auto simp: bind_eq_Some_conv)
  then show ?thesis
    using that Verify_no_error [OF step] by simp
qed

lemma verify_all_guess:
  "verify_all L PW_VERIFY pass pws c = Some (err, c') \<Longrightarrow>
    guess_moves L c (concat (map (\<lambda>p2. verify_guess p2 pass) pws)) c'"
proof (induction pws arbitrary: c)
  case (Cons pw pws)
  from Cons.prems obtain r c1 where step: "Verify L PW_VERIFY pw pass c = Some (r, c1)"
    and rest: "verify_all L PW_VERIFY pass pws c1 = Some (err, c')"
    by (rule verify_all_Cons)
  show ?case
    using guess_moves_trans [OF Cons.IH [OF rest] guess_moves_verify [OF step]] by simp
qed (simp add: guess_moves.stay)

lemma verify_all_lock: "verify_all L PW_LOCK pass pws c = Some (err, c') \<Longrightarrow> guess_moves L c [] c'"
proof (induction pws arbitrary: c)
  case (Cons pw pws)
  from Cons.prems obtain r c1 where step: "Verify L PW_LOCK pw pass c = Some (r, c1)"
    and rest: "verify_all L PW_LOCK pass pws c1 = Some (err, c')"
    by (rule verify_all_Cons)
  have "quiet_step c c1"
    using Verify_quiet [OF step] by simp
  from guess_moves_trans [OF Cons.IH [OF rest] guess_moves_quiet [OF this]] show ?case
    by simp
qed (simp add: guess_moves.stay)

lemma lockCommand_guess:
  assumes "lockCommand L op arg con = Some (res, con')" and "Initialized (co_card con)"
  shows "guess_moves L (co_card con) (if op = ''unlock'' then passphrase_guesses arg (co_input con) else []) (co_card con')"
  using assms
  by (auto simp: lockCommand_def passphrase_guesses_def Let_def bind_eq_Some_conv term_read_def
      split: if_splits prod.splits list.splits option.splits
      intro: guess_moves.stay verify_all_guess verify_all_lock)

lemma handleCommand_guess:
  assumes "handleCommand L rw cmd con = Some (err, con')" and "Initialized (co_card con)"
  shows "guess_moves L (co_card con) (line_guesses cmd (co_input con)) (co_card con')"
  using assms
  by (auto simp: handleCommand_def line_guesses_def println_def term_write_def token_init_def confirm_presence_def
      Init_initialized Let_def bind_eq_Some_conv
      split: if_splits prod.splits option.splits
      intro: guess_moves.stay guess_moves_quiet rng_quiet
      dest!: ServeRPC_quiet lockCommand_guess)

lemma guess_moves_initialized: "guess_moves L c gs c' \<Longrightarrow> Initialized c' = Initialized c"
  using card_identityD(7) [OF card_moves_identity [OF guess_moves_card]] by (auto simp: Initialized_def)

lemma terminal_loop_guess:
  "terminal_loop L rw con = Some con' \<Longrightarrow> Initialized (co_card con) \<Longrightarrow>
    guess_moves L (co_card con) (terminal_guesses L rw con) (co_card con')"
proof (induction "length (co_input con)" arbitrary: con rule: less_induct)
  case less
  note loop = less.prems(1) [unfolded terminal_loop.simps [of L rw con]]
  show ?case
  proof (cases "co_input con")
    case Nil
    then have "terminal_guesses L rw con = []"
      by (simp add: terminal_guesses.simps)
    moreover have "con' = con"
      using loop Nil by simp
    ultimately show ?thesis
      by (simp add: guess_moves.stay)
  next
    case (Cons line rest)
    obtain cmd err where line: "line = (cmd, err)"
      by (cases line)
    let ?con = "con\<lparr>co_input := rest\<rparr>"
    show ?thesis
    proof (cases err)
      case None
      then obtain err2 con2 where step: "handleCommand L rw cmd ?con = Some (err2, con2)"
        and rest: "if err2 = Some EOF then con' = con2 else terminal_loop L rw con2 = Some con'"
        using loop by (auto simp: Cons line split: option.splits goerr.splits)
      have first: "guess_moves L (co_card con) (line_guesses cmd rest) (co_card con2)"
        using handleCommand_guess [OF step] less.prems(2) by simp
      have guesses: "terminal_guesses L rw con =
          line_guesses cmd rest @ (if err2 = Some EOF then [] else terminal_guesses L rw con2)"
        by (simp add: terminal_guesses.simps [of L rw con] Cons line None step split: option.splits goerr.splits)
      have "guess_moves L (co_card con2) (if err2 = Some EOF then [] else terminal_guesses L rw con2) (co_card con')"
        using rest less.hyps [of con2] handleCommand_input [OF step] guess_moves_initialized [OF first]
          less.prems(2) Cons by (auto intro: guess_moves.stay)
      from guess_moves_trans [OF this first] show ?thesis
        unfolding guesses .
    next
      case (Some e)
      then have "if e = EOF then con' = ?con \<and> terminal_guesses L rw con = []
          else terminal_loop L rw ?con = Some con' \<and> terminal_guesses L rw con = terminal_guesses L rw ?con"
        using loop by (auto simp: terminal_guesses.simps [of L rw con] Cons line Let_def split: goerr.splits)
      then show ?thesis
        using less.hyps [of ?con] less.prems(2) Cons by (auto split: if_splits intro: guess_moves.stay)
    qed
  qed
qed

lemma handleSession_guess:
  "handleSession L rw reqs shells con = Some (n, con') \<Longrightarrow> Initialized (co_card con) \<Longrightarrow>
    guess_moves L (co_card con) (request_guesses reqs (co_input con)) (co_card con')"
proof (induction reqs arbitrary: shells)
  case (Cons req reqs)
  then obtain act where "session_action req = Some act"
    by (auto simp: bind_eq_Some_conv)
  with Cons show ?case
    by (cases act) (auto intro: handleCommand_guess)
qed (simp add: guess_moves.stay)

lemma rpc_guess: "line_guesses ''rpc'' lines = []"
  by (simp add: line_guesses_def)

lemma handleChannel_guess:
  assumes "handleChannel L ty rw reqs con = Some (n, con')" and "Initialized (co_card con)"
  shows "guess_moves L (co_card con) (if ty = ''session'' then request_guesses reqs (co_input con) else []) (co_card con')"
  using assms handleCommand_guess [of L rw "''rpc''" con] handleSession_guess [of L rw reqs 0 con n con']
  by (auto simp: handleChannel_def handleDirectForward_def rpc_guess split: if_splits intro: guess_moves.stay)

section \<open>The device\<close>

lemma step_guess:
  assumes "step L g ev g'" and "c_initialized (g_card g)"
  shows "guess_moves L (g_card g) (event_guesses L g ev) (g_card g')"
  using assms(1)
proof cases
  case (usb_out buf err u)
  then show ?thesis
    using Rx_guess by (auto elim!: CCIDRx_cases)
next
  case (usb_in inn u)
  then show ?thesis
    using CCIDTx_card [of "g_reader g" inn u] by (simp add: guess_moves.stay)
next
  case accept
  then show ?thesis
    by (simp add: ssh_accept_def guess_moves_quiet flip: g_card_def)
next
  case (channel ok key ty rw reqs lines shells con)
  then show ?thesis
    using handleChannel_guess [of L ty rw reqs "(g_con g)\<lparr>co_input := lines\<rparr>"] assms(2)
    by (cases "ty = ''session''") (simp_all add: g_card_def Initialized_def)
next
  case (terminal ok key rw lines con)
  then show ?thesis
    using terminal_loop_guess [of L rw "greeted L ((g_con g)\<lparr>co_input := lines\<rparr>)"] assms(2)
    by (simp add: g_card_def Initialized_def handleTerminal_def greeted_def term_write_def)
next
  case (line ok key rw cmd lines err con)
  then show ?thesis
    using handleCommand_guess [of L rw cmd "(g_con g)\<lparr>co_input := lines\<rparr>"] assms(2)
    by (simp add: g_card_def Initialized_def)
qed (auto simp: guess_moves_quiet guess_moves.stay simp flip: g_card_def)

lemma guess_run_moves:
  assumes "guess_run L g evs gs g'" and "c_initialized (g_card g)"
  shows "guess_moves L (g_card g) gs (g_card g')"
  using assms
proof induction
  case (snoc g evs gs g1 ev g')
  then have first: "guess_moves L (g_card g) gs (g_card g1)"
    by blast
  then have "c_initialized (g_card g1)"
    using guess_moves_initialized snoc.prems by (auto simp: Initialized_def)
  from guess_moves_trans [OF step_guess [OF snoc.hyps(2) this] first] show ?case .
qed (simp add: guess_moves.stay)

section \<open>What an event presents\<close>

text \<open>
  The passphrases an event can carry at all: the data of a VERIFY command that some end of the USB message decodes
  to, and the lines a client types. Every guess is one of them.
\<close>

definition verify_data :: "('x) apdulib_scheme \<Rightarrow> bytes \<Rightarrow> bytes list" where
  "verify_data L apdu =
     (case Unmarshal L apdu of
        (cmd, None) \<Rightarrow> if INS cmd = INS_VERIFY then [CData cmd] else []
      | (_, Some _) \<Rightarrow> [])"

definition usb_passphrases :: "('x) apdulib_scheme \<Rightarrow> bytes \<Rightarrow> bytes list" where
  "usb_passphrases L buf = concat (map (\<lambda>n. verify_data L (drop n buf)) [0..<Suc (length buf)])"

definition typed :: "(string \<times> goerr option) list \<Rightarrow> bytes list" where
  "typed lines = map (\<lambda>(line, err). str_bytes line) lines"

fun presented :: "('x) apdulib_scheme \<Rightarrow> event \<Rightarrow> bytes list" where
  "presented L (UsbOut buf) = usb_passphrases L buf"
| "presented L (Channel key ty rw reqs lines) = typed lines"
| "presented L (Terminal key rw lines) = typed lines"
| "presented L (Line key rw cmd lines) = typed lines"
| "presented L _ = []"

definition offered :: "('x) apdulib_scheme \<Rightarrow> event list \<Rightarrow> bytes list" where
  "offered L evs = concat (map (presented L) evs)"

lemma verify_guess_pw: "(r, pw) \<in> set (verify_guess p2 pass) \<Longrightarrow> pw = pass"
  by (auto simp: verify_guess_def split: if_splits)

lemma apdu_guesses_pw: "(r, pw) \<in> set (apdu_guesses L apdu) \<Longrightarrow> pw \<in> set (verify_data L apdu)"
  by (auto simp: apdu_guesses_def verify_data_def command_guesses_def dest: verify_guess_pw
      split: prod.splits option.splits if_splits)

lemma message_guesses_pw:
  assumes "(r, pw) \<in> set (message_guesses L buf)"
  shows "pw \<in> set (usb_passphrases L buf)"
proof -
  obtain len apdu where "Data buf len = Some apdu" and apdu: "(r, pw) \<in> set (apdu_guesses L apdu)"
    using assms by (auto simp: message_guesses_def simp del: read_XfrBlock.simps split: if_splits option.splits dest!: sym [of "Some _"])
  then obtain n where "n \<le> length buf" "apdu = drop n buf"
    using Data_suffix by blast
  then show ?thesis
    using apdu_guesses_pw [OF apdu] by (auto simp: usb_passphrases_def simp del: upt_Suc intro!: bexI [of _ n])
qed

lemma line_guesses_pw: "(r, pw) \<in> set (line_guesses cmd lines) \<Longrightarrow> pw \<in> set (typed lines)"
  by (auto simp: line_guesses_def passphrase_guesses_def typed_def dest: verify_guess_pw
      split: if_splits option.splits list.splits prod.splits)

text \<open>A command reads lines off the front of the input.\<close>

lemma handleCommand_rest:
  "handleCommand L rw cmd con = Some (err, con') \<Longrightarrow> set (co_input con') \<subseteq> set (co_input con)"
  by (auto simp: handleCommand_def println_def term_write_def token_init_def confirm_presence_def
      lockCommand_def term_read_def Let_def bind_eq_Some_conv
      split: if_splits prod.splits option.splits list.splits)

lemma typed_mono: "set xs \<subseteq> set ys \<Longrightarrow> set (typed xs) \<subseteq> set (typed ys)"
  by (auto simp: typed_def)

lemma terminal_guesses_pw: "(r, pw) \<in> set (terminal_guesses L rw con) \<Longrightarrow> pw \<in> set (typed (co_input con))"
proof (induction "length (co_input con)" arbitrary: con rule: less_induct)
  case less
  then obtain cmd err rest where input: "co_input con = (cmd, err) # rest"
    by (cases "co_input con") (auto simp: terminal_guesses.simps [of L rw con])
  have next_line: "pw \<in> set (typed (co_input con))"
    if "(r, pw) \<in> set (terminal_guesses L rw con2)" "set (co_input con2) \<subseteq> set rest"
      "length (co_input con2) \<le> length rest" for con2
    using less.hyps [OF _ that(1)] that(2,3) typed_mono [of "co_input con2" "co_input con"] input by fastforce
  have "(r, pw) \<in> set (line_guesses cmd rest) \<or> (r, pw) \<in> set (terminal_guesses L rw (con\<lparr>co_input := rest\<rparr>)) \<or>
      (\<exists>err2 con2. handleCommand L rw cmd (con\<lparr>co_input := rest\<rparr>) = Some (err2, con2) \<and>
        (r, pw) \<in> set (terminal_guesses L rw con2))"
    using less.prems
    by (cases err; cases "handleCommand L rw cmd (con\<lparr>co_input := rest\<rparr>)")
      (auto simp: terminal_guesses.simps [of L rw con] input split: if_splits)
  then consider "(r, pw) \<in> set (line_guesses cmd rest)"
    | "(r, pw) \<in> set (terminal_guesses L rw (con\<lparr>co_input := rest\<rparr>))"
    | err2 con2 where "handleCommand L rw cmd (con\<lparr>co_input := rest\<rparr>) = Some (err2, con2)"
        "(r, pw) \<in> set (terminal_guesses L rw con2)"
    by blast
  then show ?case
  proof cases
    case 1
    then show ?thesis
      using line_guesses_pw typed_mono [of rest "co_input con"] input by fastforce
  next
    case 2
    then show ?thesis
      by (rule next_line) simp_all
  next
    case 3
    then show ?thesis
      using next_line handleCommand_rest [OF 3(1)] handleCommand_input [OF 3(1)] by simp
  qed
qed

lemma request_guesses_pw: "(r, pw) \<in> set (request_guesses reqs lines) \<Longrightarrow> pw \<in> set (typed lines)"
proof (induction reqs)
  case (Cons req reqs)
  then show ?case
    by (cases "session_action req"; cases "the (session_action req)") (auto dest: line_guesses_pw)
qed simp

lemma event_guesses_pw: "(r, pw) \<in> set (event_guesses L g ev) \<Longrightarrow> pw \<in> set (presented L ev)"
  by (cases ev) (auto simp: greeted_def term_write_def dest: message_guesses_pw request_guesses_pw line_guesses_pw
      dest!: terminal_guesses_pw split: if_splits)

lemma guess_run_pw: "guess_run L g evs gs g' \<Longrightarrow> (r, pw) \<in> set gs \<Longrightarrow> pw \<in> set (offered L evs)"
  by (induction rule: guess_run.induct) (auto simp: offered_def dest: event_guesses_pw)

section \<open>Properties\<close>

text \<open>
  C2. The device refines the PIN machine, guess by guess: a run from an initialized card, whatever events interleave,
  is a run of the abstract machine with one fixed right passphrase for each key, and the guesses of that run
  are exactly those of its events, each once and in order: the VERIFY commands with a passphrase that the host
  sent and the passphrases typed after unlock commands. So each wrong guess on a locked key costs a try and each right one
  opens the key; between guesses keys can only be locked again.
\<close>

theorem device_pin_trace:
  assumes "guess_run L g evs gs g'" and "pgp_ok L" and "wrong_passphrase_keeps L"
    and "c_initialized (g_card g)" and "pin_inv (g_card g)"
  shows "\<exists>ops. pin_run (good_passphrase L (g_card g)) (abs_pin (g_card g)) ops (abs_pin (g_card g')) \<and> guesses_of ops = gs"
  using guess_moves_pin [OF guess_run_moves [OF assms(1,4)] assms(2,3,5)] by blast

text \<open>One line that unlocks both keys with the signature key's passphrase.\<close>

lemma demo_line_run:
  obtains g' where
    "guess_run sample_boot demo_device [Line [9] [] ''unlock all'' [([CHR 0x01, CHR 0x02], None)]]
       [(SigPin, [1, 2]), (DecPin, [1, 2])] g'"
    "abs_pin (g_card g') = \<lparr>pin_sig = Open, pin_dec = Locked, pin_tries = 2\<rparr>"
proof -
  let ?con = "(g_con demo_device)\<lparr>co_input := [([CHR 0x01, CHR 0x02], None)]\<rparr>"
  obtain err c' where c': "verify_all sample_boot PW_VERIFY (str_bytes [CHR 0x01, CHR 0x02]) (lock_pws ''all'')
      (g_card demo_device) = Some (err, c')" "abs_pin c' = \<lparr>pin_sig = Open, pin_dec = Locked, pin_tries = 2\<rparr>"
    using sample_unlock_all by auto
  moreover have "co_card ?con = g_card demo_device"
    by (simp add: g_card_def)
  ultimately obtain con where con: "handleCommand sample_boot [] ''unlock all'' ?con = Some (None, con)" "co_card con = c'"
    using unlock_all_command [of sample_boot "[CHR 0x01, CHR 0x02]" ?con err c' "[]"] by (auto simp: Initialized_def)
  have "lock_pws ''all'' = [PW1_CDS, PW1]"
    by (simp add: lock_pws_def)
  then have guesses: "line_guesses ''unlock all'' [([CHR 0x01, CHR 0x02], None)] = [(SigPin, [1, 2]), (DecPin, [1, 2])]"
    by (simp add: line_guesses_def unlock_pattern passphrase_guesses_def verify_guess_def str_bytes_def)
  have "step sample_boot demo_device (Line [9] [] ''unlock all'' [([CHR 0x01, CHR 0x02], None)]) (demo_device\<lparr>g_con := con\<rparr>)"
    using step.line [OF _ _ _ con(1), of "\<lambda>key. key = [9]" "[9]"] by simp
  from guess_run.snoc [OF guess_run.start this]
  have "guess_run sample_boot demo_device [Line [9] [] ''unlock all'' [([CHR 0x01, CHR 0x02], None)]]
      [(SigPin, [1, 2]), (DecPin, [1, 2])] (demo_device\<lparr>g_con := con\<rparr>)"
    by (simp add: guesses)
  then show ?thesis
    using that con(2) c'(2) by simp
qed

theorem device_pin_trace_witness:
  "\<exists>g' ops. guess_run sample_boot demo_device [Line [9] [] ''unlock all'' [([CHR 0x01, CHR 0x02], None)]]
       [(SigPin, [1, 2]), (DecPin, [1, 2])] g' \<and>
     pin_run (good_passphrase sample_boot sample_card) \<lparr>pin_sig = Locked, pin_dec = Locked, pin_tries = 3\<rparr>
       ops \<lparr>pin_sig = Open, pin_dec = Locked, pin_tries = 2\<rparr> \<and>
     guesses_of ops = [(SigPin, [1, 2]), (DecPin, [1, 2])]"
proof -
  obtain g' where g': "guess_run sample_boot demo_device [Line [9] [] ''unlock all'' [([CHR 0x01, CHR 0x02], None)]]
       [(SigPin, [1, 2]), (DecPin, [1, 2])] g'"
    "abs_pin (g_card g') = \<lparr>pin_sig = Open, pin_dec = Locked, pin_tries = 2\<rparr>"
    by (rule demo_line_run)
  show ?thesis
    using device_pin_trace [OF g'(1) sample_boot_pgp sample_boot_keeps] sample_card_pin_inv g'
    by (auto simp: sample_card_pins(1))
qed

lemma device_pin_run:
  assumes "run L g evs g'" and "pgp_ok L" and "wrong_passphrase_keeps L"
    and "c_initialized (g_card g)" and "pin_inv (g_card g)"
  obtains ops where "pin_run (good_passphrase L (g_card g)) (abs_pin (g_card g)) ops (abs_pin (g_card g'))"
    and "\<And>r pw. Guess r pw \<in> set ops \<Longrightarrow> pw \<in> set (offered L evs)"
proof -
  obtain gs where gs: "guess_run L g evs gs g'"
    using run_guess_run [OF assms(1)] by blast
  then obtain ops where ops: "pin_run (good_passphrase L (g_card g)) (abs_pin (g_card g)) ops (abs_pin (g_card g'))"
    "guesses_of ops = gs"
    using guess_moves_pin [OF guess_run_moves [OF _ assms(4)] assms(2,3,5)] by blast
  then show ?thesis
    using that [OF ops(1)] guess_run_pw [OF gs] guesses_of_mem by metis
qed

lemma offered_demo:
  "offered L [Terminal [9] [] [(''unlock all'', None), ([CHR 0x01, CHR 0x02], None)]] = [str_bytes ''unlock all'', [1, 2]]"
  by (simp add: offered_def typed_def str_bytes_def)

lemma slot_locked_abs: "slot_locked c (pin_key r c) \<longleftrightarrow> pin_get r (abs_pin c) = Locked"
  by (auto simp: slot_locked_key abs_slot_key split: option.splits)

lemma run_keeps_locked:
  assumes "run L g evs g'" and "pgp_ok L" and "wrong_passphrase_keeps L"
    and "c_initialized (g_card g)" and "pin_inv (g_card g)"
    and "slot_locked (g_card g) (pin_key r (g_card g))"
    and "\<forall>pw \<in> set (offered L evs). \<not> good_passphrase L (g_card g) r pw"
  shows "slot_locked (g_card g') (pin_key r (g_card g'))"
proof -
  from assms(1-5) obtain ops
    where run: "pin_run (good_passphrase L (g_card g)) (abs_pin (g_card g)) ops (abs_pin (g_card g'))"
      and ops: "\<And>r pw. Guess r pw \<in> set ops \<Longrightarrow> pw \<in> set (offered L evs)"
    by (rule device_pin_run) blast
  show ?thesis
    using pin_run_opens [OF run, of r] ops assms(6,7) by (auto simp: slot_locked_abs)
qed

text \<open>
  C4. Without the passphrase no key opens: over any run of the device, a locked key whose own passphrase is
  among neither the VERIFY data the host sent nor the lines a client typed is still locked at the end, even when
  the other key's passphrase is; and when neither is, the tries have not gone up.
\<close>

theorem device_without_passphrase:
  assumes "run L g evs g'" and "pgp_ok L" and "wrong_passphrase_keeps L"
    and "c_initialized (g_card g)" and "pin_inv (g_card g)"
  shows "(\<forall>r. slot_locked (g_card g) (pin_key r (g_card g)) \<longrightarrow>
      (\<forall>pw \<in> set (offered L evs). \<not> good_passphrase L (g_card g) r pw) \<longrightarrow>
      slot_locked (g_card g') (pin_key r (g_card g'))) \<and>
    ((\<forall>r. \<forall>pw \<in> set (offered L evs). \<not> good_passphrase L (g_card g) r pw) \<longrightarrow>
      c_errorCounterPW1 (g_card g') \<le> c_errorCounterPW1 (g_card g))"
proof -
  from assms obtain ops
    where run: "pin_run (good_passphrase L (g_card g)) (abs_pin (g_card g)) ops (abs_pin (g_card g'))"
      and ops: "\<And>r pw. Guess r pw \<in> set ops \<Longrightarrow> pw \<in> set (offered L evs)"
    by (rule device_pin_run) blast
  show ?thesis
  proof (intro conjI allI impI)
    fix r
    assume "slot_locked (g_card g) (pin_key r (g_card g))"
      and "\<forall>pw \<in> set (offered L evs). \<not> good_passphrase L (g_card g) r pw"
    then show "slot_locked (g_card g') (pin_key r (g_card g'))"
      by (rule run_keeps_locked [OF assms])
  next
    assume "\<forall>r. \<forall>pw \<in> set (offered L evs). \<not> good_passphrase L (g_card g) r pw"
    then show "c_errorCounterPW1 (g_card g') \<le> c_errorCounterPW1 (g_card g)"
      using pin_run_tries [OF run] ops by (auto simp: word_le_nat_alt)
  qed
qed

theorem device_without_passphrase_witness:
  "\<exists>g'. run sample_boot demo_device [Terminal [9] [] [(''unlock all'', None), ([CHR 0x01, CHR 0x02], None)]] g' \<and>
     slot_locked sample_card (pin_key DecPin sample_card) \<and> slot_locked (g_card g') (pin_key DecPin (g_card g')) \<and>
     \<not> slot_locked (g_card g') (pin_key SigPin (g_card g'))"
proof -
  obtain g' where g': "run sample_boot demo_device [Terminal [9] [] [(''unlock all'', None), ([CHR 0x01, CHR 0x02], None)]] g'"
    "abs_pin (g_card g') = \<lparr>pin_sig = Open, pin_dec = Locked, pin_tries = 2\<rparr>"
    by (rule demo_unlock)
  have "\<forall>pw \<in> {str_bytes ''unlock all'', [1, 2]}. \<not> good_passphrase sample_boot sample_card DecPin pw"
    by (simp add: good_passphrase_def sample_boot_defs sample_key_defs str_bytes_def)
  moreover have locked: "slot_locked sample_card (pin_key DecPin sample_card)"
    by (simp add: slot_locked_key slot_key_def sample_key_defs)
  moreover have "\<not> slot_locked (g_card g') (pin_key SigPin (g_card g'))"
    unfolding slot_locked_abs g'(2) by simp
  moreover have "slot_locked (g_card g') (pin_key DecPin (g_card g'))"
    using device_without_passphrase [OF g'(1) sample_boot_pgp sample_boot_keeps, unfolded offered_demo,
        THEN conjunct1, rule_format, of DecPin] calculation(1) locked sample_card_pin_inv
    by (simp only: demo_device_simps sample_card_simps list.set simp_thms)
  ultimately show ?thesis
    using g'(1) by blast
qed

end
