(* ===== verification/Board.thy ===== *)
theory Board
  imports System
begin

text \<open>
  What the firmware does to the board around \<^verbatim>\<open>main\<close>: the \<^verbatim>\<open>init\<close> functions of
  \<^verbatim>\<open>src/internal/snvs/snvs.go\<close>, \<^verbatim>\<open>src/console.go\<close>,
  \<^verbatim>\<open>src/gokey_imx6.go\<close> and \<^verbatim>\<open>src/mem.go\<close>, the port that \<^verbatim>\<open>main\<close> starts, and
  the interrupt handler of \<^verbatim>\<open>src/internal/usb/irq.go\<close>. The TamaGo drivers are not part of
  the repository: a call of a driver is recorded, with its arguments, in the order it is made.
\<close>

section \<open>The calls into the drivers\<close>

record SecurityPolicy =
  sp_Clock :: bool
  sp_Temperature :: bool
  sp_Voltage :: bool
  sp_SecurityViolation :: bool
  sp_HardFail :: bool

datatype arm_freq = FreqMax | FreqLow

datatype usb_irq = IRQ_URI | IRQ_PCI | IRQ_UI

datatype hwcall =
  DCP_Init | Debug bool | SNVS_SetPolicy SecurityPolicy
| UART2_Disable | SetARMFreq arm_freq | DMA_Init u32 nat
| Port_Init usb_port | Port_DeviceMode usb_port
| GIC_Init bool bool | GIC_EnableInterrupt nat bool | Port_EnableInterrupt usb_port usb_irq

text \<open>Where the board's memory starts, and the interrupt of each USB controller.\<close>

record board =
  RamStart :: u32
  PortIRQ :: "usb_port \<Rightarrow> nat"

section \<open>snvs.go, console.go, gokey\_imx6.go, mem.go\<close>

definition snvs_init :: "('x) bootlib_scheme \<Rightarrow> hwcall list" where
  "snvs_init L =
     (if \<not> SnvsAvailable L then []
      else [DCP_Init, Debug False,
        SNVS_SetPolicy \<lparr>sp_Clock = True, sp_Temperature = True, sp_Voltage = True,
          sp_SecurityViolation = True, sp_HardFail = True\<rparr>])"

definition console_init :: "hwcall list" where
  "console_init = [UART2_Disable]"

text \<open>
  \<^verbatim>\<open>printk\<close>, through which the runtime writes every byte of the standard output and of a
  panic's trace, does nothing.
\<close>

definition printk :: "byte \<Rightarrow> hwcall list" where
  "printk c = []"

definition freq_init :: "hwcall list" where
  "freq_init = [SetARMFreq FreqMax]"

definition ramSize :: u32 where
  "ramSize = 0x10000000 - 0x100000"

definition dmaStart :: u32 where
  "dmaStart = 0xa0000000 - 0x100000"

definition dmaSize :: nat where
  "dmaSize = 0x100000"

definition mem_init :: "hwcall list" where
  "mem_init = [DMA_Init dmaStart dmaSize]"

text \<open>
  Imported packages are initialized before \<^verbatim>\<open>main\<close>'s own, whose \<^verbatim>\<open>init\<close>
  functions run in the order of their files.
\<close>

definition board_init :: "('x) bootlib_scheme \<Rightarrow> hwcall list" where
  "board_init L = snvs_init L @ console_init @ freq_init @ mem_init"

section \<open>irq.go\<close>

definition StartInterruptHandler :: "board \<Rightarrow> usb_port option \<Rightarrow> hwcall list" where
  "StartInterruptHandler B port =
     (case port of
        None \<Rightarrow> []
      | Some p \<Rightarrow>
          [GIC_Init True False, GIC_EnableInterrupt (PortIRQ B p) True,
           Port_EnableInterrupt p IRQ_URI, Port_EnableInterrupt p IRQ_PCI, Port_EnableInterrupt p IRQ_UI])"

text \<open>The handler itself, for the interrupt number the controller reports.\<close>

datatype isr_action = ServiceInterrupts usb_port | LogUnexpected nat

definition isr :: "board \<Rightarrow> usb_port \<Rightarrow> nat \<Rightarrow> isr_action" where
  "isr B port irq = (if irq = PortIRQ B port then ServiceInterrupts port else LogUnexpected irq)"

section \<open>The firmware\<close>

text \<open>
  The whole start: the \<^verbatim>\<open>init\<close> functions, \<^verbatim>\<open>main\<close>, and the port it hands the device
  to. The result is the sequence of driver calls and the running device.
\<close>

definition firmware :: "board \<Rightarrow> ('x) bootlib_scheme \<Rightarrow> keys \<Rightarrow> u2fhw \<Rightarrow> rng \<Rightarrow> (hwcall list \<times> gokey) option" where
  "firmware B L k hw s =
     do {
       g \<leftarrow> gokey_main L k hw s;
       let port = g_port g;
       Some (board_init L @ [Port_Init port, Port_DeviceMode port] @ StartInterruptHandler B (Some port), g)
     }"

text \<open>
  What the device does with the interrupts it takes. Every transfer, be it of the smart card, of the token or of
  the Ethernet interface with the SSH server behind it, comes through the port; once the handler has serviced the
  port, what arrived may be worked on at any later time, by any of the goroutines, and any event of the device may
  be the result. An interrupt that is only logged brings nothing to work on. Only the timers
  that the card and the U2F package have running expire on their own.
\<close>

fun timer_event :: "event \<Rightarrow> bool" where
  "timer_event SleepTimeout = True"
| "timer_event PresenceTimedOut = True"
| "timer_event _ = False"

inductive isr_run :: "board \<Rightarrow> ('x) bootlib_scheme \<Rightarrow> usb_port \<Rightarrow> gokey \<Rightarrow> nat list \<Rightarrow> event list \<Rightarrow> gokey \<Rightarrow> bool"
  for B L port g where
  start: "isr_run B L port g [] [] g"
| interrupt: "isr_run B L port g irqs evs g1 \<Longrightarrow> isr_run B L port g (irqs @ [irq]) evs g1"
| event: "isr_run B L port g irqs evs g1 \<Longrightarrow>
    timer_event ev \<or> ServiceInterrupts port \<in> isr B port ` set irqs \<Longrightarrow> step L g1 ev g' \<Longrightarrow>
    isr_run B L port g irqs (evs @ [ev]) g'"

lemma isr_run_run: "isr_run B L port g irqs evs g' \<Longrightarrow> run L g evs g'"
  by (induction rule: isr_run.induct) (auto intro: run.intros)

lemma isr_run_unserviced:
  assumes "isr_run B L port g irqs evs g'" and "PortIRQ B port \<notin> set irqs"
  shows "\<forall>ev \<in> set evs. timer_event ev"
  using assms by (induction rule: isr_run.induct) (auto simp: isr_def)

lemma timer_event_client: "timer_event ev \<Longrightarrow> client ev = None"
  by (cases ev) simp_all

lemma StartInterruptHandler_enables:
  "GIC_EnableInterrupt n b \<in> set (StartInterruptHandler B (Some p)) \<longleftrightarrow> n = PortIRQ B p \<and> b"
  by (simp add: StartInterruptHandler_def)

lemma board_init_enables: "GIC_EnableInterrupt n b \<notin> set (board_init L)"
  by (simp add: board_init_def snvs_init_def console_init_def freq_init_def mem_init_def)

section \<open>Properties\<close>

definition sample_board :: board where
  "sample_board =
     \<lparr>RamStart = 0x80000000, PortIRQ = (\<lambda>p. if p = USB1 then 75 else 74)\<rparr>"

text \<open>
  C13. Nothing but the started port can make the device unwrap its key. The one interrupt the
  start enables is the one the handler services. On a device that is not initialized at boot, whatever interrupts
  then arrive, and whatever the goroutines do with what the port brought them, smart card traffic and SSH
  sessions alike: what happens is a run of the device; if the card was initialized, an interrupt of the port did
  come, and with it a client that holds the authorized key; and as long as every interrupt was another one, timers
  are all that happened, and the card still holds the wrapped key as bundled.
\<close>

theorem only_port_unseals:
  assumes "firmware B L k hw s = Some (calls, g)" and "\<not> k_initAtBoot k" and "k_pgpSecretKey k \<noteq> []"
    and "isr_run B L (g_port g) g irqs evs g1"
  shows "(\<forall>n. (\<exists>b. GIC_EnableInterrupt n b \<in> set calls) \<longleftrightarrow> isr B (g_port g) n = ServiceInterrupts (g_port g)) \<and>
    run L g evs g1 \<and>
    (c_initialized (g_card g1) \<longrightarrow> PortIRQ B (g_port g) \<in> set irqs \<and>
       (\<exists>ev \<in> set evs. \<exists>key. client ev = Some key \<and> ParseAuthorizedKey L (k_sshPublicKey k) = (key, None))) \<and>
    (PortIRQ B (g_port g) \<notin> set irqs \<longrightarrow>
       set evs \<subseteq> {SleepTimeout, PresenceTimedOut} \<and> c_ArmoredKey (g_card g1) = k_pgpSecretKey k)"
proof -
  have main: "gokey_main L k hw s = Some g"
    and calls: "calls = board_init L @ [Port_Init (g_port g), Port_DeviceMode (g_port g)] @
      StartInterruptHandler B (Some (g_port g))"
    using assms(1) by (auto simp: firmware_def bind_eq_Some_conv Let_def)
  have run: "run L g evs g1"
    using isr_run_run [OF assms(4)] .
  have enabled: "(\<exists>b. GIC_EnableInterrupt n b \<in> set calls) \<longleftrightarrow> isr B (g_port g) n = ServiceInterrupts (g_port g)" for n
    unfolding calls by (auto simp: StartInterruptHandler_enables board_init_enables isr_def intro: exI [of _ True])
  have sealed: "\<not> c_initialized (g_card g1) \<and> c_ArmoredKey (g_card g1) = k_pgpSecretKey k"
    if "\<forall>ev \<in> set evs. client ev = None"
    using card_moves_identity [OF run_no_client [OF run that]] boot_sealed [OF main assms(2)] assms(3)
    by (simp add: card_identity_def fresh_def g_card_def)
  have unserviced: "\<forall>ev \<in> set evs. timer_event ev" if "PortIRQ B (g_port g) \<notin> set irqs"
    using isr_run_unserviced [OF assms(4) that] .
  have client: "ParseAuthorizedKey L (k_sshPublicKey k) = (key, None)"
    if ev: "ev \<in> set evs" "client ev = Some key" for ev key
  proof -
    obtain ok where "g_auth g = Some ok" "ok key"
      using run_client [OF run ev] by blast
    then show ?thesis
      using gokey_main_cases [OF main] by metis
  qed
  have "PortIRQ B (g_port g) \<in> set irqs"
    "\<exists>ev \<in> set evs. \<exists>key. client ev = Some key \<and> ParseAuthorizedKey L (k_sshPublicKey k) = (key, None)"
    if init: "c_initialized (g_card g1)"
    using init sealed unserviced timer_event_client client by (metis option.exhaust)+
  moreover have "ev = SleepTimeout \<or> ev = PresenceTimedOut" if "timer_event ev" for ev
    using that by (cases ev) simp_all
  ultimately show ?thesis
    using enabled run sealed unserviced timer_event_client by blast
qed

lemma sealed_boot:
  "\<exists>g. gokey_main sample_boot (keys_zero\<lparr>k_pgpSecretKey := [1]\<rparr>) sample_hw 0 = Some g"
  by (rule sample_boot_main) (simp_all add: keys_zero_def)

text \<open>A run: an interrupt nobody enabled, then one of the port, with which the host polls the reader.\<close>

lemma polled:
  assumes "gokey_main sample_boot (keys_zero\<lparr>k_pgpSecretKey := [1]\<rparr>) sample_hw 0 = Some g"
  shows "g_port g = USB1" "\<exists>g1. isr_run sample_board sample_boot USB1 g [32, 75] [UsbIn []] g1"
proof -
  show "g_port g = USB1"
    using assms by (auto simp: gokey_main_def Let_def bind_eq_Some_conv select_port_def sample_boot_def conslib.defs)
  have "running g" "g_ccid g" "g_queue g = None"
    using gokey_main_cases [OF assms] by (simp_all add: running_def) metis+
  then have "step sample_boot g (UsbIn []) (set_reader (g_reader g) g)"
    by (intro step.usb_in) (simp_all add: CCIDTx_def g_reader_def)
  moreover have "isr_run sample_board sample_boot USB1 g [32, 75] [] g"
    using isr_run.interrupt [OF isr_run.interrupt [OF isr_run.start]] by simp
  ultimately show "\<exists>g1. isr_run sample_board sample_boot USB1 g [32, 75] [UsbIn []] g1"
    using isr_run.event [of sample_board sample_boot USB1 g "[32, 75]" "[]"] by (force simp: isr_def sample_board_def)
qed

theorem only_port_unseals_witness:
  "\<exists>calls g g1. firmware sample_board sample_boot (keys_zero\<lparr>k_pgpSecretKey := [1]\<rparr>) sample_hw 0 = Some (calls, g) \<and>
     isr_run sample_board sample_boot (g_port g) g [32, 75] [UsbIn []] g1 \<and> \<not> c_initialized (g_card g1) \<and>
     GIC_EnableInterrupt 32 True \<notin> set calls \<and> run sample_boot g [UsbIn []] g1"
proof -
  let ?k = "keys_zero\<lparr>k_pgpSecretKey := [1]\<rparr>"
  obtain g where g: "gokey_main sample_boot ?k sample_hw 0 = Some g"
    using sealed_boot by blast
  then obtain calls where fw: "firmware sample_board sample_boot ?k sample_hw 0 = Some (calls, g)"
    by (simp add: firmware_def Let_def)
  obtain g1 where g1: "isr_run sample_board sample_boot (g_port g) g [32, 75] [UsbIn []] g1"
    using polled [OF g] by auto
  have k: "\<not> k_initAtBoot ?k" "k_pgpSecretKey ?k \<noteq> []"
    by (simp_all add: keys_zero_def)
  have "isr sample_board (g_port g) 32 \<noteq> ServiceInterrupts (g_port g)"
    using polled(1) [OF g] by (simp add: isr_def sample_board_def)
  then show ?thesis
    using only_port_unseals [OF fw k g1] fw g1 by (intro exI [of _ calls] exI [of _ g] exI [of _ g1]) auto
qed

text \<open>
  The start secures the board before anything can reach it: when the build uses the secure storage, the
  coprocessor is initialized, debugging is off and every tamper detector is on before the
  serial console is silenced, the memory is set up and the first interrupt is enabled; and whatever the build, the
  serial console is off by then.
\<close>

theorem secure_start:
  assumes "firmware B L k hw s = Some (calls, g)"
  shows "\<exists>before after. calls = before @ after \<and> UART2_Disable \<in> set before \<and>
    (k_SNVS k \<longrightarrow> (\<exists>rest. before = DCP_Init # Debug False #
        SNVS_SetPolicy \<lparr>sp_Clock = True, sp_Temperature = True, sp_Voltage = True,
          sp_SecurityViolation = True, sp_HardFail = True\<rparr> # rest)) \<and>
    (\<forall>p i n b. {Port_Init p, Port_DeviceMode p, GIC_EnableInterrupt n b, Port_EnableInterrupt p i} \<inter> set before = {})"
proof -
  have main: "gokey_main L k hw s = Some g"
    and calls: "calls = board_init L @ [Port_Init (g_port g), Port_DeviceMode (g_port g)] @
      StartInterruptHandler B (Some (g_port g))"
    using assms by (auto simp: firmware_def bind_eq_Some_conv Let_def)
  have "k_SNVS k \<longrightarrow> SnvsAvailable L"
    using gokey_main_cases [OF main] by metis
  then have "k_SNVS k \<longrightarrow> (\<exists>rest. board_init L = DCP_Init # Debug False #
        SNVS_SetPolicy \<lparr>sp_Clock = True, sp_Temperature = True, sp_Voltage = True,
          sp_SecurityViolation = True, sp_HardFail = True\<rparr> # rest)"
    by (simp add: board_init_def snvs_init_def)
  moreover have "UART2_Disable \<in> set (board_init L)"
    and "{Port_Init p, Port_DeviceMode p, GIC_EnableInterrupt n b, Port_EnableInterrupt p i} \<inter> set (board_init L) = {}"
    for p i n b
    by (simp_all add: board_init_def snvs_init_def console_init_def freq_init_def mem_init_def)
  ultimately show ?thesis
    unfolding calls by blast
qed

theorem secure_start_witness:
  "\<exists>before after g. firmware sample_board sample_boot (keys_zero\<lparr>k_pgpSecretKey := [1]\<rparr>) sample_hw 0 =
     Some (before @ after, g) \<and> UART2_Disable \<in> set before"
proof -
  obtain g where "gokey_main sample_boot (keys_zero\<lparr>k_pgpSecretKey := [1]\<rparr>) sample_hw 0 = Some g"
    using sealed_boot by blast
  then obtain calls where "firmware sample_board sample_boot (keys_zero\<lparr>k_pgpSecretKey := [1]\<rparr>) sample_hw 0 = Some (calls, g)"
    by (simp add: firmware_def Let_def)
  moreover obtain before after where "calls = before @ after" "UART2_Disable \<in> set before"
    using secure_start [OF calculation] by metis
  ultimately show ?thesis
    by blast
qed

text \<open>
  The memory layout has no overlap and no overflow: on a board whose memory starts at
  \<^verbatim>\<open>0x80000000\<close>, the Go heap ends below the DMA region, and that region ends exactly with the
  board's 512 megabytes.
\<close>

theorem memory_layout:
  assumes "RamStart B = 0x80000000"
  shows "unat (RamStart B) + unat ramSize = unat (RamStart B + ramSize) \<and>
    unat (RamStart B + ramSize) < unat dmaStart \<and>
    unat dmaStart + dmaSize = unat (RamStart B) + 0x20000000 \<and>
    DMA_Init dmaStart dmaSize \<in> set (board_init L)"
  by (simp add: assms ramSize_def dmaStart_def dmaSize_def board_init_def mem_init_def)

theorem memory_layout_witness:
  "unat (RamStart sample_board + ramSize) < unat dmaStart \<and> DMA_Init 0x9ff00000 0x100000 \<in> set (board_init sample_boot)"
  using memory_layout [of sample_board sample_boot] by (simp add: sample_board_def dmaStart_def dmaSize_def)

end
