(* ===== verification/VpcdProcess.thy ===== *)
theory VpcdProcess
  imports System
begin

text \<open>
  The two endless loops of the virtual card's process, \<^verbatim>\<open>src/gokey_vpcd.go\<close>:
  \<^verbatim>\<open>dialVPCD\<close> towards the reader and \<^verbatim>\<open>serveRPC\<close> for PKCS\#11 clients. Each is a
  function of the outcomes of its calls into the network package, in the order they come; that a
  loop is still waiting for the next outcome is the end of the list. Their turns are the steps of
  \<open>vpcd_step\<close>, in which both run side by side.
\<close>

section \<open>Start\<close>

text \<open>The address of the reader: the argument of \<^verbatim>\<open>-c\<close>, or its default.\<close>

definition vpcd_server :: "string option \<Rightarrow> string" where
  "vpcd_server c_flag = (case c_flag of None \<Rightarrow> ''127.0.0.1:35963'' | Some addr \<Rightarrow> addr)"

section \<open>dialVPCD\<close>

text \<open>
  The outcome of \<^verbatim>\<open>net.Dial\<close>: its error, or a connection with the segments that will arrive over it and the
  result of each write.
\<close>

type_synonym dial = "goerr + (conn \<times> (bytes \<Rightarrow> goerr option))"

fun dialVPCD ::
    "('x) pgplib_scheme \<Rightarrow> dial list \<Rightarrow> card \<Rightarrow> (bytes list list \<times> card) option" where
  "dialVPCD L [] c = Some ([], c)"
| "dialVPCD L (Inl err # dials) c = dialVPCD L dials c"
| "dialVPCD L (Inr (conn, werr) # dials) c =
     do {
       (out, c1) \<leftarrow> handleVPCDConnection L werr conn c;
       (outs, c2) \<leftarrow> dialVPCD L dials c1;
       Some (out # outs, c2)
     }"

section \<open>serveRPC\<close>

text \<open>
  The outcomes of \<^verbatim>\<open>Accept\<close>: its error, or a client's connection, which a goroutine serves. The
  result of each request is only logged.
\<close>

fun serve_clients ::
    "('x) rpclib_scheme \<Rightarrow> (goerr + bytes) list \<Rightarrow> card \<Rightarrow> (goerr option list \<times> card) option" where
  "serve_clients L [] c = Some ([], c)"
| "serve_clients L (Inl err # conns) c = serve_clients L conns c"
| "serve_clients L (Inr rw # conns) c =
     do {
       (err, c1) \<leftarrow> ServeRPC L rw c;
       (errs, c2) \<leftarrow> serve_clients L conns c1;
       Some (err # errs, c2)
     }"

definition serveRPC ::
    "('x) rpclib_scheme \<Rightarrow> goerr option \<Rightarrow> goerr option \<Rightarrow> (goerr + bytes) list \<Rightarrow> card
      \<Rightarrow> (goerr option list \<times> card) option" where
  "serveRPC L mkdir_err listen_err conns c =
     (if mkdir_err \<noteq> None then None
      else if listen_err \<noteq> None then None
      else serve_clients L conns c)"

section \<open>The loops as steps\<close>

lemma dialVPCD_steps:
  fixes L :: "('x) rpclib_scheme"
  shows "dialVPCD L dials c = Some (outs, c') \<Longrightarrow> (vpcd_step L)\<^sup>*\<^sup>* c c'"
proof (induction L dials c arbitrary: outs rule: dialVPCD.induct)
  case (3 L conn werr dials c)
  then obtain out c1 outs' where "handleVPCDConnection L werr conn c = Some (out, c1)"
    and rest: "(vpcd_step L)\<^sup>*\<^sup>* c1 c'"
    by (auto simp: bind_eq_Some_conv)
  then have "vpcd_step L c c1"
    by (blast intro: vpcd_step.dial)
  then show ?case
    using rest by (rule converse_rtranclp_into_rtranclp)
qed simp_all

lemma serve_clients_steps:
  "serve_clients L conns c = Some (errs, c') \<Longrightarrow> (vpcd_step L)\<^sup>*\<^sup>* c c'"
proof (induction L conns c arbitrary: errs rule: serve_clients.induct)
  case (3 L rw conns c)
  then obtain err c1 where "ServeRPC L rw c = Some (err, c1)" and rest: "(vpcd_step L)\<^sup>*\<^sup>* c1 c'"
    by (auto simp: bind_eq_Some_conv)
  then have "vpcd_step L c c1"
    by (blast intro: vpcd_step.rpc)
  then show ?case
    using rest by (rule converse_rtranclp_into_rtranclp)
qed simp_all

lemma serveRPC_steps:
  "serveRPC L mkdir_err listen_err conns c = Some (errs, c') \<Longrightarrow> (vpcd_step L)\<^sup>*\<^sup>* c c'"
  by (auto simp: serveRPC_def dest: serve_clients_steps split: if_splits)

section \<open>Properties\<close>

text \<open>The bytes of a well-behaved reader: each command in its own frame.\<close>

definition reader_conn :: "bytes list \<Rightarrow> dial" where
  "reader_conn reqs = Inr (concat (map (\<lambda>req. [be_put16 (of_nat (length req)), req]) reqs), \<lambda>_. None)"

lemma run_seq_append:
  "run_seq f L (xs @ ys) s = Some (rs, s') \<longleftrightarrow>
     (\<exists>rs1 s1 rs2. run_seq f L xs s = Some (rs1, s1) \<and> run_seq f L ys s1 = Some (rs2, s') \<and> rs = rs1 @ rs2)"
  by (induction xs arbitrary: s rs) (auto simp: run_seq_Cons_Some simp del: run_seq.simps(2))

text \<open>
  C31. The card's state outlives the connection: however the reader splits its commands over connections, and
  however many attempts to reach it fail in between, the answers written over all connections are
  the framed responses of running all commands one after another on the one card.
\<close>

theorem vpcd_session:
  assumes "\<forall>reqs. Inr reqs \<in> set sessions \<longrightarrow> (\<forall>req \<in> set reqs. 2 \<le> length req \<and> length req \<le> 0xffff)"
    and "run_seq RawCommand L (concat (List.map_filter (case_sum (\<lambda>_. None) Some) sessions)) c = Some (rs, c')"
    and "\<forall>(res, err) \<in> set rs. err = None"
  shows "\<exists>outs. dialVPCD L (map (case_sum Inl reader_conn) sessions) c = Some (outs, c') \<and>
    concat outs = map (vpcd_frame \<circ> fst) rs"
  using assms
proof (induction sessions arbitrary: c rs)
  case Nil
  then show ?case
    by (simp add: map_filter_def)
next
  case (Cons session sessions)
  show ?case
  proof (cases session)
    case (Inl err)
    with Cons.prems have "\<exists>outs. dialVPCD L (map (case_sum Inl reader_conn) sessions) c = Some (outs, c') \<and>
        concat outs = map (vpcd_frame \<circ> fst) rs"
      by (intro Cons.IH) (auto simp: map_filter_simps)
    with Inl show ?thesis
      by (simp add: comp_def)
  next
    case (Inr reqs)
    obtain rs1 c1 rs2 where first: "run_seq RawCommand L reqs c = Some (rs1, c1)"
      and rest: "run_seq RawCommand L (concat (List.map_filter (case_sum (\<lambda>_. None) Some) sessions)) c1 = Some (rs2, c')"
      and rs: "rs = rs1 @ rs2"
      using Cons.prems(2) Inr by (auto simp: map_filter_simps run_seq_append)
    have "handleVPCDConnection L (\<lambda>_. None) (concat (map (\<lambda>req. [be_put16 (of_nat (length req)), req]) reqs)) c =
        Some (map (vpcd_frame \<circ> fst) rs1, c1)"
      using Cons.prems(1,3) Inr rs by (intro vpcd_runs [OF _ first]) auto
    moreover obtain outs where "dialVPCD L (map (case_sum Inl reader_conn) sessions) c1 = Some (outs, c')"
      "concat outs = map (vpcd_frame \<circ> fst) rs2"
      using Cons.IH [OF _ rest] Cons.prems(1,3) rs by auto
    ultimately show ?thesis
      using Inr rs by (simp add: reader_conn_def)
  qed
qed

theorem vpcd_session_witness:
  "\<exists>outs. dialVPCD sample_lib [reader_conn [[1, 0, 0, 0]], Inl (GoErr ''refused''), reader_conn [[1, 0, 0, 0]]] sample_card =
     Some (outs, sample_card) \<and> concat outs = [[0, 2, 0x69, 0x86], [0, 2, 0x69, 0x86]]"
proof -
  have "RawCommand sample_lib [1, 0, 0, 0] sample_card = Some (([0x69, 0x86], None), sample_card)"
    by (simp add: RawCommand_def sample_Unmarshal_def Command_def)
  then show ?thesis
    using vpcd_session [of "[Inr [[1, 0, 0, 0]], Inl (GoErr ''refused''), Inr [[1, 0, 0, 0]]]" sample_lib sample_card
      "[([0x69, 0x86], None), ([0x69, 0x86], None)]" sample_card]
    by (simp add: map_filter_simps vpcd_frame_def be_put16_def)
qed

end
