(* ===== verification/SshServer.thy ===== *)
theory SshServer
  imports System
begin

text \<open>
  The goroutines of the management console's SSH server (\<^verbatim>\<open>src/internal/usb/ssh.go\<close>): the accept loop
  of \<^verbatim>\<open>start\<close>, a \<^verbatim>\<open>handleChannels\<close> for each connection, a \<^verbatim>\<open>handleChannel\<close> for each
  channel, the request loop of each session and a \<^verbatim>\<open>handleTerminal\<close> for each shell. Each has a function
  for its next turn, from one point where it waits for its client to the next, and \<open>ssh_step\<close> lets any of
  them take its turn. What the clients send is fixed in advance, in which order it is handled is not.
\<close>

section \<open>Arrivals\<close>

text \<open>
  A channel a client opens: its type, the error of \<^verbatim>\<open>Accept\<close>, the bytes and requests that come over it,
  and the lines typed at its terminal. A connection: the error of \<^verbatim>\<open>Listener.Accept\<close>, or the public key
  the client proves to hold, an error of the handshake for any other reason, and the channels it opens
  afterwards.
\<close>

record ssh_channel =
  ch_type :: string
  ch_accept_err :: "goerr option"
  ch_bytes :: bytes
  ch_requests :: "ssh_request list"
  ch_lines :: "(string \<times> goerr option) list"

datatype ssh_arrival = AcceptError goerr | Client bytes "goerr option" "ssh_channel list"

section \<open>The state\<close>

text \<open>
  A goroutine with what it still has to do, for the client with the given key: the channels to come, a
  channel, the bytes and requests of a session, a terminal not yet greeted, a terminal waiting for a line.
  \<^verbatim>\<open>ReadLine\<close> is called on the terminal that \<^verbatim>\<open>c.term\<close> is at the time of the call.
\<close>

datatype goroutine =
  Channels bytes "ssh_channel list"
| OneChannel bytes ssh_channel
| Requests bytes bytes "ssh_request list"
| Greeting bytes bytes
| ReadLine bytes bytes nat

fun goroutine_client :: "goroutine \<Rightarrow> bytes" where
  "goroutine_client (Channels key _) = key"
| "goroutine_client (OneChannel key _) = key"
| "goroutine_client (Requests key _ _) = key"
| "goroutine_client (Greeting key _) = key"
| "goroutine_client (ReadLine key _ _) = key"

text \<open>
  The server: the console, what will arrive at the listener, the goroutines, and the terminals by number with the
  lines that will be typed at each. \<open>sv_term\<close> is the field \<^verbatim>\<open>c.term\<close>, which all sessions share.
\<close>

record ssh_server =
  sv_con :: console
  sv_arrivals :: "ssh_arrival list"
  sv_goroutines :: "goroutine list"
  sv_lines :: "nat \<Rightarrow> (string \<times> goerr option) list"
  sv_term :: nat
  sv_terms :: nat

text \<open>A command reads further lines from \<^verbatim>\<open>c.term\<close>.\<close>

definition term_lines :: "ssh_server \<Rightarrow> (string \<times> goerr option) list" where
  "term_lines s = sv_lines s (sv_term s)"

definition at_term :: "ssh_server \<Rightarrow> console" where
  "at_term s = (sv_con s)\<lparr>co_input := term_lines s\<rparr>"

definition after_command :: "console \<Rightarrow> ssh_server \<Rightarrow> ssh_server" where
  "after_command con s = s\<lparr>sv_con := con, sv_lines := (sv_lines s)(sv_term s := co_input con)\<rparr>"

section \<open>The turns\<close>

text \<open>
  \<^verbatim>\<open>NewServerConn\<close> succeeds if the handshake does and the server's only authentication
  callback, \<open>ok\<close>, accepts the client's key.
\<close>

definition NewServerConn_ok :: "(bytes \<Rightarrow> bool) \<Rightarrow> bytes \<Rightarrow> goerr option \<Rightarrow> bool" where
  "NewServerConn_ok ok key err \<longleftrightarrow> err = None \<and> ok key"

text \<open>One turn of the loop in \<^verbatim>\<open>start\<close>.\<close>

definition go_accept :: "(bytes \<Rightarrow> bool) \<Rightarrow> ssh_arrival \<Rightarrow> ssh_server \<Rightarrow> ssh_server" where
  "go_accept ok a s =
     (let s1 = s\<lparr>sv_con := ssh_accept (sv_con s)\<rparr>
      in case a of
           AcceptError err \<Rightarrow> s1
         | Client key err chans \<Rightarrow>
             if \<not> NewServerConn_ok ok key err then s1
             else s1\<lparr>sv_goroutines := sv_goroutines s1 @ [Channels key chans]\<rparr>)"

text \<open>
  The turns of the other goroutines: the goroutines that are there afterwards in place of this one, the
  device events the turn amounts to, and the server. Waiting forever for the next channel or request is being gone.
\<close>

type_synonym turn = "(goroutine list \<times> event list \<times> ssh_server) option"

fun handleChannels :: "bytes \<Rightarrow> ssh_channel list \<Rightarrow> ssh_server \<Rightarrow> turn" where
  "handleChannels key [] s = Some ([], [], s)"
| "handleChannels key (ch # chans) s = Some ([OneChannel key ch, Channels key chans], [], s)"

text \<open>
  A channel that cannot be accepted is logged and dropped. A session gets a new terminal, which becomes
  \<^verbatim>\<open>c.term\<close>, and a goroutine for its requests.
\<close>

definition go_handleChannel :: "('x) conslib_scheme \<Rightarrow> bytes \<Rightarrow> ssh_channel \<Rightarrow> ssh_server \<Rightarrow> turn" where
  "go_handleChannel L key ch s =
     (if ch_type ch = ''direct-tcpip'' then
        if ch_accept_err ch \<noteq> None then Some ([], [], s)
        else do {
          con \<leftarrow> handleDirectForward L (ch_bytes ch) (at_term s);
          Some ([], [Channel key ''direct-tcpip'' (ch_bytes ch) [] (term_lines s)], after_command con s)
        }
      else if ch_type ch = ''session'' then
        if ch_accept_err ch \<noteq> None then Some ([], [], s)
        else
          Some ([Requests key (ch_bytes ch) (ch_requests ch)], [],
            s\<lparr>sv_lines := (sv_lines s)(sv_terms s := ch_lines ch), sv_term := sv_terms s,
              sv_terms := Suc (sv_terms s)\<rparr>)
      else Some ([], [], s))"

text \<open>The request loop of \<^verbatim>\<open>handleSession\<close>.\<close>

fun go_requests :: "('x) conslib_scheme \<Rightarrow> bytes \<Rightarrow> bytes \<Rightarrow> ssh_request list \<Rightarrow> ssh_server \<Rightarrow> turn" where
  "go_requests L key rw [] s = Some ([], [], s)"
| "go_requests L key rw (req # reqs) s =
     do {
       act \<leftarrow> session_action req;
       (case act of
          Exec cmd \<Rightarrow>
            do {
              (err, con) \<leftarrow> handleCommand L rw cmd (at_term s);
              Some ([], [Line key rw cmd (term_lines s)], after_command con s)
            }
        | Shell \<Rightarrow> Some ([Greeting key rw, Requests key rw reqs], [], s)
        | _ \<Rightarrow> Some ([Requests key rw reqs], [], s))
     }"

text \<open>\<^verbatim>\<open>handleTerminal\<close>: the banner and the help text, then one iteration of its loop per turn.\<close>

definition go_greeting :: "('x) bootlib_scheme \<Rightarrow> bytes \<Rightarrow> bytes \<Rightarrow> ssh_server \<Rightarrow> turn" where
  "go_greeting L key rw s =
     Some ([ReadLine key rw (sv_term s)], [Terminal key rw []],
       s\<lparr>sv_con := term_write (EscCyan L @ help_text @ EscReset L @ newline)
          (term_write (Banner L @ newline) ((sv_con s)\<lparr>co_input := []\<rparr>))\<rparr>)"

definition go_readline :: "('x) conslib_scheme \<Rightarrow> bytes \<Rightarrow> bytes \<Rightarrow> nat \<Rightarrow> ssh_server \<Rightarrow> turn" where
  "go_readline L key rw t s =
     (case sv_lines s t of
        [] \<Rightarrow> Some ([], [], s)
      | (cmd, err) # rest \<Rightarrow>
          let s1 = s\<lparr>sv_lines := (sv_lines s)(t := rest)\<rparr>
          in if err = Some EOF then Some ([], [], s1)
             else if err \<noteq> None then Some ([ReadLine key rw (sv_term s1)], [], s1)
             else do {
               (err, con) \<leftarrow> handleCommand L rw cmd (at_term s1);
               Some (if err = Some EOF then [] else [ReadLine key rw (sv_term s1)],
                 [Line key rw cmd (term_lines s1)], after_command con s1)
             })"

fun turn :: "('x) bootlib_scheme \<Rightarrow> goroutine \<Rightarrow> ssh_server \<Rightarrow> turn" where
  "turn L (Channels key chans) s = handleChannels key chans s"
| "turn L (OneChannel key ch) s = go_handleChannel L key ch s"
| "turn L (Requests key rw reqs) s = go_requests L key rw reqs s"
| "turn L (Greeting key rw) s = go_greeting L key rw s"
| "turn L (ReadLine key rw t) s = go_readline L key rw t s"

text \<open>Any goroutine may run next.\<close>

inductive ssh_step ::
    "('x) bootlib_scheme \<Rightarrow> (bytes \<Rightarrow> bool) \<Rightarrow> ssh_server \<Rightarrow> event list \<Rightarrow> ssh_server \<Rightarrow> bool" for L ok where
  accept: "sv_arrivals s = a # as \<Longrightarrow> ssh_step L ok s [Accept] (go_accept ok a (s\<lparr>sv_arrivals := as\<rparr>))"
| goroutine: "sv_goroutines s = before @ t # after \<Longrightarrow> turn L t s = Some (ts, evs, s1) \<Longrightarrow>
    ssh_step L ok s evs (s1\<lparr>sv_goroutines := before @ ts @ after\<rparr>)"

inductive_cases ssh_stepE: "ssh_step L ok s evs s'"

inductive ssh_run ::
    "('x) bootlib_scheme \<Rightarrow> (bytes \<Rightarrow> bool) \<Rightarrow> ssh_server \<Rightarrow> event list \<Rightarrow> ssh_server \<Rightarrow> bool" for L ok where
  start: "ssh_run L ok s [] s"
| snoc: "ssh_run L ok s evs s1 \<Longrightarrow> ssh_step L ok s1 evs' s' \<Longrightarrow> ssh_run L ok s (evs @ evs') s'"

text \<open>The server: \<^verbatim>\<open>start\<close> up to the loop, with what arrives after it has signalled that it runs.\<close>

definition serve_ssh ::
    "('x) conslib_scheme \<Rightarrow> bytes \<Rightarrow> ssh_arrival list \<Rightarrow> console \<Rightarrow> ((bytes \<Rightarrow> bool) \<times> ssh_server) option" where
  "serve_ssh L key arrivals con =
     do {
       ok \<leftarrow> start L key con;
       Some (ok, \<lparr>sv_con = con, sv_arrivals = arrivals, sv_goroutines = [], sv_lines = (\<lambda>_. []),
         sv_term = 0, sv_terms = 0\<rparr>)
     }"

section \<open>Clients\<close>

text \<open>Every goroutine works for a client that has arrived and been authenticated.\<close>

definition admitted :: "(bytes \<Rightarrow> bool) \<Rightarrow> ssh_arrival list \<Rightarrow> bytes \<Rightarrow> bool" where
  "admitted ok arrivals key \<longleftrightarrow> ok key \<and> (\<exists>chans. Client key None chans \<in> set arrivals)"

lemma go_requests_cases:
  assumes "go_requests L key rw reqs s = Some (ts, evs, s')"
  obtains (quiet) "goroutine_client ` set ts \<subseteq> {key}" "evs = []" "s' = s"
  | (exec) cmd err con where "handleCommand L rw cmd (at_term s) = Some (err, con)" "ts = []"
      "evs = [Line key rw cmd (term_lines s)]" "s' = after_command con s"
proof (cases reqs)
  case (Cons req reqs')
  then obtain act where act: "session_action req = Some act"
    using assms by (auto simp: bind_eq_Some_conv)
  show ?thesis
  proof (cases "\<exists>cmd. act = Exec cmd")
    case True
    then obtain cmd err con where "handleCommand L rw cmd (at_term s) = Some (err, con)" "ts = []"
      "evs = [Line key rw cmd (term_lines s)]" "s' = after_command con s"
      using assms Cons act by (auto simp: bind_eq_Some_conv)
    then show ?thesis
      by (rule exec)
  next
    case False
    then have "goroutine_client ` set ts \<subseteq> {key} \<and> evs = [] \<and> s' = s"
      using assms Cons act by (cases act) auto
    then show ?thesis
      using quiet by blast
  qed
next
  case Nil
  then show ?thesis
    using assms by (intro quiet) simp_all
qed

lemma go_readline_cases:
  assumes "go_readline L key rw t s = Some (ts, evs, s')"
  obtains (quiet) "goroutine_client ` set ts \<subseteq> {key}" "evs = []" "sv_con s' = sv_con s"
      "sv_arrivals s' = sv_arrivals s"
  | (command) cmd s1 err con where "handleCommand L rw cmd (at_term s1) = Some (err, con)"
      "goroutine_client ` set ts \<subseteq> {key}" "evs = [Line key rw cmd (term_lines s1)]" "s' = after_command con s1"
      "sv_con s1 = sv_con s" "sv_arrivals s1 = sv_arrivals s"
proof (cases "sv_lines s t")
  case (Cons line rest)
  let ?s1 = "s\<lparr>sv_lines := (sv_lines s)(t := rest)\<rparr>"
  obtain cmd err where line: "line = (cmd, err)"
    by (cases line)
  show ?thesis
  proof (cases err)
    case None
    then obtain err2 con where "handleCommand L rw cmd (at_term ?s1) = Some (err2, con)"
      "goroutine_client ` set ts \<subseteq> {key}" "evs = [Line key rw cmd (term_lines ?s1)]" "s' = after_command con ?s1"
      using assms Cons line by (auto simp: go_readline_def Let_def bind_eq_Some_conv)
    then show ?thesis
      by (rule command) simp_all
  next
    case (Some e)
    then show ?thesis
      using assms Cons line by (intro quiet) (auto simp: go_readline_def Let_def split: if_splits)
  qed
next
  case Nil
  then show ?thesis
    using assms by (intro quiet) (auto simp: go_readline_def)
qed

lemma turn_client:
  assumes "turn L t s = Some (ts, evs, s')"
  shows "goroutine_client ` set ts \<subseteq> {goroutine_client t}" and "ev \<in> set evs \<Longrightarrow> client ev = Some (goroutine_client t)"
    and "sv_arrivals s' = sv_arrivals s"
proof -
  have "goroutine_client ` set ts \<subseteq> {goroutine_client t} \<and> (ev \<in> set evs \<longrightarrow> client ev = Some (goroutine_client t)) \<and>
      sv_arrivals s' = sv_arrivals s"
  proof (cases t)
    case (Channels key chans)
    then show ?thesis
      using assms by (cases chans) auto
  next
    case (OneChannel key ch)
    then show ?thesis
      using assms by (auto simp: go_handleChannel_def after_command_def bind_eq_Some_conv split: if_splits)
  next
    case (Requests key rw reqs)
    then show ?thesis
      using assms by (auto simp: after_command_def elim!: go_requests_cases)
  next
    case (Greeting key rw)
    then show ?thesis
      using assms by (auto simp: go_greeting_def)
  next
    case (ReadLine key rw t')
    then show ?thesis
      using assms by (auto simp: after_command_def elim!: go_readline_cases)
  qed
  then show "goroutine_client ` set ts \<subseteq> {goroutine_client t}" "sv_arrivals s' = sv_arrivals s"
    "ev \<in> set evs \<Longrightarrow> client ev = Some (goroutine_client t)"
    by auto
qed

definition served :: "(bytes \<Rightarrow> bool) \<Rightarrow> ssh_arrival list \<Rightarrow> ssh_server \<Rightarrow> bool" where
  "served ok arrivals s \<longleftrightarrow>
     set (sv_arrivals s) \<subseteq> set arrivals \<and> (\<forall>t \<in> set (sv_goroutines s). admitted ok arrivals (goroutine_client t))"

lemma ssh_step_served:
  assumes "ssh_step L ok s evs s'" and "served ok arrivals s"
  shows "served ok arrivals s' \<and> (\<forall>ev \<in> set evs. \<forall>key. client ev = Some key \<longrightarrow> admitted ok arrivals key)"
  using assms(1)
proof cases
  case (accept a as)
  then show ?thesis
    using assms(2) by (cases a) (auto simp: go_accept_def served_def admitted_def NewServerConn_ok_def Let_def)
next
  case (goroutine before t after ts s1)
  have t: "admitted ok arrivals (goroutine_client t)"
    using assms(2) goroutine(2) by (simp add: served_def)
  have "goroutine_client u = goroutine_client t" if "u \<in> set ts" for u
    using turn_client(1) [OF goroutine(3)] that by auto
  then have "served ok arrivals s'"
    using assms(2) goroutine(1,2) t turn_client(3) [OF goroutine(3)] by (auto simp: served_def)
  then show ?thesis
    using turn_client(2) [OF goroutine(3)] t by auto
qed

lemma ssh_run_served:
  assumes "ssh_run L ok s evs s'" and "served ok arrivals s"
  shows "served ok arrivals s' \<and> (\<forall>ev \<in> set evs. \<forall>key. client ev = Some key \<longrightarrow> admitted ok arrivals key)"
  using assms
proof induction
  case (snoc s evs s1 evs' s')
  then show ?case
    using ssh_step_served [OF snoc.hyps(2)] by auto
qed simp

section \<open>The server as a source of device events\<close>

text \<open>A reset requested by a command stays requested.\<close>

lemma handleCommand_reset: "handleCommand L rw cmd con = Some (err, con') \<Longrightarrow> co_reset con \<Longrightarrow> co_reset con'"
  by (auto simp: handleCommand_def println_def term_write_def token_init_def confirm_presence_def
      lockCommand_def term_read_def Let_def bind_eq_Some_conv
      split: if_splits prod.splits option.splits list.splits)

lemma at_lines_reset:
  "handleCommand L rw cmd (con\<lparr>co_input := lines\<rparr>) = Some (err, con') \<Longrightarrow> co_reset con \<Longrightarrow> co_reset con'"
  by (erule handleCommand_reset) simp

lemma turn_reset: "turn L t s = Some (ts, evs, s') \<Longrightarrow> co_reset (sv_con s) \<Longrightarrow> co_reset (sv_con s')"
proof (cases t)
  case (Channels key chans)
  then show "turn L t s = Some (ts, evs, s') \<Longrightarrow> co_reset (sv_con s) \<Longrightarrow> co_reset (sv_con s')"
    by (cases chans) auto
next
  case (Requests key rw reqs)
  then show "turn L t s = Some (ts, evs, s') \<Longrightarrow> co_reset (sv_con s) \<Longrightarrow> co_reset (sv_con s')"
    by (auto simp: after_command_def at_term_def elim!: go_requests_cases dest: at_lines_reset)
next
  case (ReadLine key rw t')
  then show "turn L t s = Some (ts, evs, s') \<Longrightarrow> co_reset (sv_con s) \<Longrightarrow> co_reset (sv_con s')"
    by (auto simp: after_command_def at_term_def elim!: go_readline_cases dest: at_lines_reset)
qed (auto simp: go_handleChannel_def handleDirectForward_def go_greeting_def after_command_def
    at_term_def term_write_def bind_eq_Some_conv split: if_splits dest: at_lines_reset)

lemma ssh_step_reset: "ssh_step L ok s evs s' \<Longrightarrow> co_reset (sv_con s) \<Longrightarrow> co_reset (sv_con s')"
  by (erule ssh_stepE) (auto simp: go_accept_def ssh_accept_def Let_def dest: turn_reset split: ssh_arrival.splits)

text \<open>A turn is what its events do to the device.\<close>

lemma handleTerminal_greets:
  "handleTerminal L rw ban (con\<lparr>co_input := []\<rparr>) =
     Some (term_write (EscCyan L @ help_text @ EscReset L @ newline) (term_write (ban @ newline) (con\<lparr>co_input := []\<rparr>)))"
  by (simp add: handleTerminal_def terminal_loop.simps term_write_def)

lemma run_one: "step L g ev g' \<Longrightarrow> run L g [ev] g'"
  using run.snoc [OF run.start] by fastforce

lemma turn_run:
  assumes "turn L t s = Some (ts, evs, s')" and "g_con g = sv_con s" and "running g" and "g_auth g = Some ok"
    and "ok (goroutine_client t)"
  shows "run L g evs (g\<lparr>g_con := sv_con s'\<rparr>)"
proof -
  have silent: "run L g [] (g\<lparr>g_con := sv_con s\<rparr>)"
    using run.start [of L g] by (simp flip: assms(2))
  have line: "run L g [Line (goroutine_client t) rw cmd (term_lines s1)] (g\<lparr>g_con := con\<rparr>)"
    if "handleCommand L rw cmd (at_term s1) = Some (err, con)" "sv_con s1 = sv_con s" for rw cmd s1 err con
    using run_one [OF step.line [OF assms(3-5)], of L rw cmd "term_lines s1"] that assms(2) by (simp add: at_term_def)
  show ?thesis
  proof (cases t)
    case (Channels key chans)
    then show ?thesis
      using assms(1) silent by (cases chans) auto
  next
    case (OneChannel key ch)
    have "run L g [Channel key ''direct-tcpip'' (ch_bytes ch) [] (term_lines s)] (g\<lparr>g_con := con\<rparr>)"
      if "handleDirectForward L (ch_bytes ch) (at_term s) = Some con" for con
      using run_one [OF step.channel [OF assms(3-5)], of L "''direct-tcpip''" "ch_bytes ch" "[]" "term_lines s"]
        that assms(2) OneChannel by (simp add: at_term_def handleChannel_def)
    then show ?thesis
      using assms(1) silent OneChannel
      by (auto simp: go_handleChannel_def after_command_def bind_eq_Some_conv split: if_splits)
  next
    case (Requests key rw reqs)
    then show ?thesis
      using assms(1) silent line [of rw _ s] by (auto simp: after_command_def elim!: go_requests_cases)
  next
    case (Greeting key rw)
    then show ?thesis
      using run_one [OF step.terminal [OF assms(3-5) handleTerminal_greets], of L rw] assms(1,2)
      by (auto simp: go_greeting_def)
  next
    case (ReadLine key rw t')
    then show ?thesis
      using assms(1) silent line [of rw] by (auto simp: after_command_def elim!: go_readline_cases)
  qed
qed

lemma ssh_step_run:
  assumes "ssh_step L ok s evs s'" and "g_con g = sv_con s" and "running g" and "g_auth g = Some ok"
    and "\<forall>t \<in> set (sv_goroutines s). ok (goroutine_client t)"
  shows "run L g evs (g\<lparr>g_con := sv_con s'\<rparr>)"
  using assms(1)
proof cases
  case (accept a as)
  then have "sv_con s' = ssh_accept (g_con g)"
    by (simp add: go_accept_def Let_def assms(2) split: ssh_arrival.splits)
  then show ?thesis
    using run_one [OF step.accept [OF assms(3)]] assms(4) accept(1) by simp
next
  case (goroutine before t after ts s1)
  then show ?thesis
    using turn_run [OF goroutine(3) assms(2-4)] assms(5) by simp
qed

lemma ssh_run_run:
  assumes "ssh_run L ok s evs s'" and "g_con g = sv_con s" and "g_auth g = Some ok" and "served ok arrivals s"
    and "\<not> co_reset (sv_con s')"
  shows "run L g evs (g\<lparr>g_con := sv_con s'\<rparr>)"
  using assms
proof induction
  case (start s)
  then have "g\<lparr>g_con := sv_con s\<rparr> = g"
    by (simp flip: start.prems(1))
  then show ?case
    using run.start [of L g] by simp
next
  case (snoc s evs s1 evs' s')
  let ?g1 = "g\<lparr>g_con := sv_con s1\<rparr>"
  have "\<not> co_reset (sv_con s1)"
    using ssh_step_reset [OF snoc.hyps(2)] snoc.prems(4) by blast
  then have "run L g evs ?g1" and "running ?g1"
    using snoc.IH snoc.prems by (auto simp: running_def)
  moreover have "served ok arrivals s1"
    using ssh_run_served [OF snoc.hyps(1)] snoc.prems(3) by blast
  then have "run L ?g1 evs' (?g1\<lparr>g_con := sv_con s'\<rparr>)"
    using snoc.prems(2) calculation(2) by (intro ssh_step_run [OF snoc.hyps(2)]) (auto simp: served_def admitted_def)
  ultimately show ?case
    using run_append by fastforce
qed

section \<open>Properties\<close>

lemma rejected_step:
  assumes "\<forall>a \<in> set (sv_arrivals s). case a of AcceptError _ \<Rightarrow> True | Client key err _ \<Rightarrow> \<not> NewServerConn_ok ok key err"
    and "sv_goroutines s = []"
  shows "ssh_step L ok s evs s' \<longleftrightarrow>
    (\<exists>a as. sv_arrivals s = a # as \<and> evs = [Accept] \<and> s' = s\<lparr>sv_arrivals := as, sv_con := ssh_accept (sv_con s)\<rparr>)"
proof -
  have "go_accept ok a (s\<lparr>sv_arrivals := as\<rparr>) = s\<lparr>sv_arrivals := as, sv_con := ssh_accept (sv_con s)\<rparr>"
    if "sv_arrivals s = a # as" for a as
    using assms(1) that by (auto simp: go_accept_def Let_def split: ssh_arrival.splits)
  note rejected = this
  show ?thesis
  proof
    assume "ssh_step L ok s evs s'"
    then show "\<exists>a as. sv_arrivals s = a # as \<and> evs = [Accept] \<and>
        s' = s\<lparr>sv_arrivals := as, sv_con := ssh_accept (sv_con s)\<rparr>"
      using assms(2) rejected by (auto elim!: ssh_stepE)
  next
    assume "\<exists>a as. sv_arrivals s = a # as \<and> evs = [Accept] \<and>
        s' = s\<lparr>sv_arrivals := as, sv_con := ssh_accept (sv_con s)\<rparr>"
    then obtain a as where arrivals: "sv_arrivals s = a # as" and evs: "evs = [Accept]"
      and s': "s' = s\<lparr>sv_arrivals := as, sv_con := ssh_accept (sv_con s)\<rparr>"
      by blast
    show "ssh_step L ok s evs s'"
      using ssh_step.accept [OF arrivals, of L ok] unfolding rejected [OF arrivals] evs s' .
  qed
qed

definition woken :: "console \<Rightarrow> nat \<Rightarrow> console" where
  "woken con n = (if n = 0 then con else con\<lparr>co_card := Wake (co_card con)\<rparr>)"

lemma woken_Suc: "ssh_accept (woken con n) = woken con (Suc n)"
  by (simp add: woken_def ssh_accept_def Wake_def)

text \<open>
  C6. Without the one authorized key a client of the console achieves nothing: however many connect, with whatever
  keys, channels, requests and typed lines, and whatever else fails at the listener, no goroutine is ever started for
  them. The runs of the server are exactly these: some of the arrivals have been accepted, in order, and the console, its
  card, token and plugin are as before, except that the card is awake if there were any.
\<close>

theorem unauthorized_only_wakes:
  assumes "serve_ssh L key arrivals con = Some (ok, s0)"
    and "\<forall>k err chans. Client k err chans \<in> set arrivals \<longrightarrow> k \<noteq> fst (ParseAuthorizedKey L (co_AuthorizedKey con))"
  shows "ssh_run L ok s0 evs s \<longleftrightarrow>
    (\<exists>n \<le> length arrivals. evs = replicate n Accept \<and>
       s = s0\<lparr>sv_arrivals := drop n arrivals,
         sv_con := (if n = 0 then con else con\<lparr>co_card := Wake (co_card con)\<rparr>)\<rparr>)"
proof -
  have start: "start L key con = Some ok"
    and s0: "sv_con s0 = con" "sv_arrivals s0 = arrivals" "sv_goroutines s0 = []"
    using assms(1) by (auto simp: serve_ssh_def bind_eq_Some_conv)
  have ok: "ok = (\<lambda>k. k = fst (ParseAuthorizedKey L (co_AuthorizedKey con)))"
    using start_authorizes [OF start] by auto
  have rejected: "case a of AcceptError _ \<Rightarrow> True | Client k err _ \<Rightarrow> \<not> NewServerConn_ok ok k err"
    if "a \<in> set arrivals" for a
    using assms(2) that by (auto simp: ok NewServerConn_ok_def split: ssh_arrival.splits)
  define at where "at n = s0\<lparr>sv_arrivals := drop n arrivals, sv_con := woken con n\<rparr>" for n
  have step: "ssh_step L ok (at n) evs' s' \<longleftrightarrow> n < length arrivals \<and> evs' = [Accept] \<and> s' = at (Suc n)" for n evs' s'
  proof -
    have "\<forall>a \<in> set (sv_arrivals (at n)). case a of AcceptError _ \<Rightarrow> True | Client k err _ \<Rightarrow> \<not> NewServerConn_ok ok k err"
      using rejected by (auto simp: at_def dest: in_set_dropD)
    moreover have "drop n arrivals = a # as \<longleftrightarrow> n < length arrivals \<and> a = arrivals ! n \<and> as = drop (Suc n) arrivals" for a as
      by (cases "n < length arrivals") (auto simp: Cons_nth_drop_Suc [symmetric])
    ultimately show ?thesis
      using rejected_step [of "at n" ok L evs' s'] by (auto simp: at_def s0 woken_Suc)
  qed
  have at_0: "s0 = at 0"
    using s0 by (simp add: at_def woken_def)
  have forward: "\<exists>n \<le> length arrivals. evs = replicate n Accept \<and> s = at n" if "ssh_run L ok (at 0) evs s"
    using that
  proof (induction "at 0" evs s rule: ssh_run.induct)
    case (snoc evs s1 evs' s')
    then obtain n where "evs = replicate n Accept" "s1 = at n"
      by blast
    then have "evs @ evs' = replicate (Suc n) Accept \<and> s' = at (Suc n) \<and> Suc n \<le> length arrivals"
      using snoc.hyps(3) by (simp add: step replicate_append_same)
    then show ?case
      by blast
  qed auto
  have backward: "ssh_run L ok (at 0) (replicate n Accept) (at n)" if "n \<le> length arrivals" for n
    using that
  proof (induction n)
    case (Suc n)
    then show ?case
      using ssh_run.snoc [of L ok "at 0" "replicate n Accept" "at n" "[Accept]" "at (Suc n)"]
      by (simp add: step replicate_append_same)
  qed (simp add: ssh_run.start)
  have at: "s0\<lparr>sv_arrivals := drop n arrivals,
      sv_con := (if n = 0 then con else con\<lparr>co_card := Wake (co_card con)\<rparr>)\<rparr> = at n" for n
    by (simp add: at_def woken_def)
  show ?thesis
    unfolding at using forward backward at_0 by metis
qed

theorem unauthorized_only_wakes_witness:
  "\<exists>ok s0 s. serve_ssh sample_boot [1]
     [Client [8] None [\<lparr>ch_type = ''session'', ch_accept_err = None, ch_bytes = [],
        ch_requests = [\<lparr>req_Type = ''shell'', req_Payload = []\<rparr>], ch_lines = [(''reboot'', None)]\<rparr>],
      AcceptError (GoErr ''closed'')]
     ((sample_console sample_card)\<lparr>co_AuthorizedKey := [9]\<rparr>) = Some (ok, s0) \<and>
   ssh_run sample_boot ok s0 [Accept, Accept] s \<and>
   sv_con s = (sample_console sample_card)\<lparr>co_AuthorizedKey := [9], co_card := Wake sample_card\<rparr>"
proof -
  let ?con = "(sample_console sample_card)\<lparr>co_AuthorizedKey := [9]\<rparr>"
  let ?arrivals = "[Client [8] None [\<lparr>ch_type = ''session'', ch_accept_err = None, ch_bytes = [],
        ch_requests = [\<lparr>req_Type = ''shell'', req_Payload = []\<rparr>], ch_lines = [(''reboot'', None)]\<rparr>],
      AcceptError (GoErr ''closed'')]"
  obtain ok s0 where s0: "serve_ssh sample_boot [1] ?arrivals ?con = Some (ok, s0)"
    by (simp add: serve_ssh_def start_def)
  have card: "co_card ?con = sample_card" and auth: "co_AuthorizedKey ?con = [9]"
    by (simp_all add: sample_console_def)
  have "ssh_run sample_boot ok s0 (replicate 2 Accept)
      (s0\<lparr>sv_arrivals := drop 2 ?arrivals, sv_con := ?con\<lparr>co_card := Wake (co_card ?con)\<rparr>\<rparr>)"
    by (subst unauthorized_only_wakes [OF s0]) (auto simp: auth intro!: exI [of _ 2])
  then show ?thesis
    using s0 card by (fastforce simp: numeral_2_eq_2)
qed

text \<open>
  C7. The server does nothing the device model does not have, and serves nobody it has not admitted: under every schedule
  of the accept loop and the goroutines of its connections, channels, sessions and terminals, what has happened, short of
  a reboot, is a run of the device whose events are the turns taken, and each event of a client carries the key of one
  that arrived, finished the handshake and holds the authorized key. So every theorem about runs of the
  device holds of the server.
\<close>

theorem ssh_server_run:
  assumes "serve_ssh L key arrivals (g_con g) = Some (ok, s0)" and "g_auth g = Some ok"
    and "ssh_run L ok s0 evs s" and "\<not> co_reset (sv_con s)"
  shows "run L g evs (g\<lparr>g_con := sv_con s\<rparr>) \<and>
    (\<forall>ev \<in> set evs. \<forall>k. client ev = Some k \<longrightarrow>
       ParseAuthorizedKey L (co_AuthorizedKey (g_con g)) = (k, None) \<and> (\<exists>chans. Client k None chans \<in> set arrivals))"
proof -
  have start: "start L key (g_con g) = Some ok" and con: "g_con g = sv_con s0" and served: "served ok arrivals s0"
    using assms(1) by (auto simp: serve_ssh_def served_def bind_eq_Some_conv)
  have "run L g evs (g\<lparr>g_con := sv_con s\<rparr>)"
    using assms(3) con assms(2) served assms(4) by (rule ssh_run_run)
  then show ?thesis
    using ssh_run_served [OF assms(3) served] start_authorizes [OF start] by (auto simp: admitted_def)
qed

text \<open>A shell in which one line is typed, on a device that has nothing else to do.\<close>

definition ssh_device :: gokey where
  "ssh_device = \<lparr>g_con = (sample_console sample_card)\<lparr>co_AuthorizedKey := [9]\<rparr>, g_queue = None, g_ccid = True,
     g_auth = Some (\<lambda>key. key = [9]), g_usb = blank_device, g_port = USB1\<rparr>"

definition shell_channel :: ssh_channel where
  "shell_channel = \<lparr>ch_type = ''session'', ch_accept_err = None, ch_bytes = [],
     ch_requests = [\<lparr>req_Type = ''shell'', req_Payload = []\<rparr>], ch_lines = [(''exit'', None)]\<rparr>"

lemma ssh_run_goroutine:
  assumes "ssh_run L ok s0 evs s" and "sv_goroutines s = t # after" and "turn L t s = Some (ts, evs', s1)"
  shows "ssh_run L ok s0 (evs @ evs') (s1\<lparr>sv_goroutines := ts @ after\<rparr>)"
  using ssh_run.snoc [OF assms(1) ssh_step.goroutine [of s "[]", OF _ assms(3)]] assms(2) by simp

lemma term_write_input [simp]: "co_input (term_write str con) = co_input con"
  by (simp add: term_write_def)

lemma shell_run:
  assumes "s0 = \<lparr>sv_con = con, sv_arrivals = [Client [9] None [shell_channel]], sv_goroutines = [], sv_lines = (\<lambda>_. []),
      sv_term = 0, sv_terms = 0\<rparr>" and "\<not> co_reset con"
  shows "\<exists>s. ssh_run sample_boot (\<lambda>key. key = [9]) s0 [Accept, Terminal [9] [] [], Line [9] [] ''exit'' []] s \<and>
    sv_goroutines s = [Requests [9] [] [], Channels [9] []] \<and> \<not> co_reset (sv_con s)"
proof -
  let ?run = "ssh_run sample_boot (\<lambda>key. key = [9]) s0"
  let ?shell = "\<lparr>req_Type = ''shell'', req_Payload = []\<rparr>"
  let ?s1 = "s0\<lparr>sv_con := ssh_accept con, sv_arrivals := [], sv_goroutines := [Channels [9] [shell_channel]]\<rparr>"
  let ?s3 = "?s1\<lparr>sv_lines := (\<lambda>_. [])(0 := [(''exit'', None)]), sv_terms := 1\<rparr>"
  let ?con5 = "term_write (EscCyan sample_boot @ help_text @ EscReset sample_boot @ newline)
      (term_write (Banner sample_boot @ newline) ((ssh_accept con)\<lparr>co_input := []\<rparr>))"
  let ?s5 = "?s3\<lparr>sv_con := ?con5\<rparr>"
  let ?con6 = "snd (println ''logout'' (Some EOF) (?con5\<lparr>co_input := []\<rparr>))"
  have "?run [Accept] ?s1"
    using ssh_run.snoc [OF ssh_run.start ssh_step.accept [of s0 _ "[]"], of _ sample_boot "\<lambda>key. key = [9]"]
    by (simp add: assms(1) go_accept_def NewServerConn_ok_def)
  then have "?run [Accept] (?s1\<lparr>sv_goroutines := [OneChannel [9] shell_channel, Channels [9] []]\<rparr>)"
    by (drule_tac ssh_run_goroutine) auto
  then have "?run [Accept] (?s3\<lparr>sv_goroutines := [Requests [9] [] [?shell], Channels [9] []]\<rparr>)"
    by (drule_tac ssh_run_goroutine) (auto simp: go_handleChannel_def shell_channel_def assms(1))
  then have "?run [Accept] (?s3\<lparr>sv_goroutines := [Greeting [9] [], Requests [9] [] [], Channels [9] []]\<rparr>)"
    by (drule_tac ssh_run_goroutine) (auto simp: session_action_def)
  then have "?run [Accept, Terminal [9] [] []]
      (?s5\<lparr>sv_goroutines := [ReadLine [9] [] 0, Requests [9] [] [], Channels [9] []]\<rparr>)"
    by (drule_tac ssh_run_goroutine) (auto simp: go_greeting_def assms(1))
  then have "?run [Accept, Terminal [9] [] [], Line [9] [] ''exit'' []]
      (?s5\<lparr>sv_con := ?con6, sv_lines := (\<lambda>_. [])(0 := []), sv_goroutines := [Requests [9] [] [], Channels [9] []]\<rparr>)"
    by (drule_tac ssh_run_goroutine)
      (auto simp: go_readline_def at_term_def term_lines_def after_command_def handleCommand_def println_def assms(1))
  moreover have "\<not> co_reset ?con6"
    using assms(2) by (simp add: println_def term_write_def ssh_accept_def)
  ultimately show ?thesis
    by (intro exI conjI) auto
qed

theorem ssh_server_run_witness:
  "\<exists>ok s0 s. serve_ssh sample_boot [1] [Client [9] None [shell_channel]] (g_con ssh_device) = Some (ok, s0) \<and>
     ssh_run sample_boot ok s0 [Accept, Terminal [9] [] [], Line [9] [] ''exit'' []] s \<and>
     run sample_boot ssh_device [Accept, Terminal [9] [] [], Line [9] [] ''exit'' []] (ssh_device\<lparr>g_con := sv_con s\<rparr>)"
proof -
  let ?s0 = "\<lparr>sv_con = g_con ssh_device, sv_arrivals = [Client [9] None [shell_channel]], sv_goroutines = [],
      sv_lines = (\<lambda>_. []), sv_term = 0, sv_terms = 0\<rparr>"
  have serve: "serve_ssh sample_boot [1] [Client [9] None [shell_channel]] (g_con ssh_device) =
      Some (\<lambda>key. key = [9], ?s0)"
    by (simp add: serve_ssh_def start_def ssh_device_def)
  have "\<not> co_reset (g_con ssh_device)" and auth: "g_auth ssh_device = Some (\<lambda>key. key = [9])"
    by (simp_all add: ssh_device_def sample_console_def)
  then obtain s where s: "ssh_run sample_boot (\<lambda>key. key = [9]) ?s0 [Accept, Terminal [9] [] [], Line [9] [] ''exit'' []] s"
    "\<not> co_reset (sv_con s)"
    using shell_run [OF refl] by blast
  show ?thesis
    using ssh_server_run [OF serve auth s] serve s(1) by blast
qed

text \<open>
  The terminals of different sessions are not kept apart: once another session has been opened, a line that an
  earlier session's terminal still waits for is executed, but what the command reads, like the passphrase of
  \<^verbatim>\<open>unlock\<close>, is typed in the newer session, and so is every further line the goroutine reads.
\<close>

theorem sessions_share_terminal:
  assumes "sv_lines s t = (cmd, None) # rest" and "sv_term s \<noteq> t"
    and "handleCommand L rw cmd ((sv_con s)\<lparr>co_input := sv_lines s (sv_term s)\<rparr>) = Some (err, con)" and "err \<noteq> Some EOF"
  shows "\<exists>s'. go_readline L key rw t s =
      Some ([ReadLine key rw (sv_term s)], [Line key rw cmd (sv_lines s (sv_term s))], s') \<and>
    sv_lines s' t = rest \<and> sv_lines s' (sv_term s) = co_input con"
  using assms by (simp add: go_readline_def at_term_def term_lines_def after_command_def)

end
