(* ===== verification/Spec2Isabelle.thy ===== *)
theory Spec2Isabelle
  imports Presented Board VpcdProcess SshServer
begin

text \<open>
  A model of the GoKey firmware (an OpenPGP smart card, U2F token and age plugin for the USB armory Mk II)
  and of the tools around it, with the theorems that make it correct.

  \<^bold>\<open>The program.\<close> At build time \<^verbatim>\<open>bundle_keys.go\<close> wraps the private keys with a key
  only the target's hardware can derive and generates the initializer of \<^verbatim>\<open>keys.go\<close>. On the device
  \<^verbatim>\<open>gokey_imx6.go\<close> configures the USB device, creates the card (\<^verbatim>\<open>internal/icc\<close>), the
  token (\<^verbatim>\<open>internal/u2f\<close>) and the console (\<^verbatim>\<open>internal/usb/ssh.go\<close>) with the age plugin
  (\<^verbatim>\<open>internal/age\<close>), and services interrupts. The host reaches the card through CCID messages on
  two USB endpoints (\<^verbatim>\<open>internal/usb/smartcard.go\<close>, \<^verbatim>\<open>internal/ccid\<close>), over
  PKCS\#11 in an SSH channel (\<^verbatim>\<open>internal/icc/rpc.go\<close>), or through the console's lock and unlock
  commands. Keys are unwrapped by \<^verbatim>\<open>internal/snvs\<close>. \<^verbatim>\<open>gokey_vpcd.go\<close> runs the same
  card as a process behind a virtual reader.

  \<^bold>\<open>Theories\<close>, in the order they build on each other:
  \<^item> \<open>GoPrelude\<close>: bytes, errors, slices that panic, fixed-width integer codecs, hexadecimal output.
  \<^item> \<open>Tlv\<close> (\<open>icc/tlv.go\<close>): encoder and decoder of data objects, a reference BER reader.
  \<^item> \<open>Cipher\<close>, \<open>Snvs\<close> (\<open>snvs/*.go\<close>): CTR and CBC modes and HMAC over a block cipher, and
    authenticated sealing over them; the contract is the locale \<open>sealed_storage\<close>.
  \<^item> \<open>Apdu\<close> (\<open>icc/apdu.go\<close>), \<open>OpenPgp\<close> (\<open>icc/openpgp.go\<close>): status words; key import and the
    choice of the three subkeys, on an explicit heap because the code shares subkeys by pointer.
  \<^item> \<open>Card\<close>, \<open>CardInv\<close> (\<open>icc/interface.go\<close>, \<open>verify.go\<close>, \<open>wake.go\<close>, \<open>led.go\<close>): the record
    \<open>card\<close> has the fields of \<^verbatim>\<open>icc.Interface\<close>; verification, locking, initialization; the
    invariant and the contracts \<open>card_handler\<close>, \<open>quiet_handler\<close>, \<open>passive_handler\<close> every operation is held to.
  \<^item> \<open>SampleCard\<close>: concrete library parameters and a small card, for the witnesses.
  \<^item> \<open>PinMachine\<close>: the abstract passphrase machine that \<^verbatim>\<open>Verify\<close> refines.
  \<^item> \<open>CardData\<close> (\<open>icc/data.go\<close>), \<open>CardCrypto\<close> (\<open>icc/crypto*.go\<close>), \<open>CardCommand\<close> (the APDU dispatcher),
    \<open>CardInit\<close> (initialization establishes the invariant; whole sessions).
  \<^item> \<open>Ccid\<close> (\<open>ccid/*.go\<close>), \<open>UsbCcid\<close> (\<open>CCIDTx\<close>, \<open>CCIDRx\<close>): messages as records with their
    encodings, the handlers, the dispatcher \<^verbatim>\<open>Rx\<close>; the endpoint pair as a step relation.
  \<^item> \<open>Vpcd\<close> (\<open>gokey_vpcd.go\<close>): the framing of the virtual reader over a segmented connection.
  \<^item> \<open>CardRpc\<close> (\<open>icc/rpc.go\<close>), \<open>UsbDevice\<close> (\<open>usb/device.go\<close>, \<open>ConfigureCCID\<close>), \<open>U2f\<close> (\<open>u2f/*.go\<close>),
    \<open>Age\<close> (\<open>age/plugin.go\<close>), \<open>Console\<close> (\<open>usb/ssh.go\<close>), \<open>Bundle\<close> (\<open>bundle_keys.go\<close>).
  \<^item> \<open>Boot\<close> (\<open>keys.go\<close>, \<open>gokey_imx6.go\<close>, \<open>main\<close> of \<open>gokey_vpcd.go\<close>): the start of both builds.
  \<^item> \<open>System\<close>: the contract \<open>card_host\<close> of a program around the card, and the running device as a state machine whose events are the calls made from interrupts,
    timers and goroutines.
  \<^item> \<open>PinDevice\<close>: every run of the device is a run of the abstract PIN machine of \<open>PinMachine\<close>.
    \<open>Presented\<close>: the guesses of that run are, one for one and in order, the passphrases the events of the
    device present to the card, the data of VERIFY commands and the lines typed after an unlock command.
  \<^item> \<open>Board\<close> (\<open>snvs.go\<close>, \<open>console.go\<close>, \<open>gokey_imx6.go\<close>, \<open>mem.go\<close>: \<^verbatim>\<open>init\<close>; \<open>usb/irq.go\<close>): the calls
    into the drivers before and after \<^verbatim>\<open>main\<close>, the memory layout, and the interrupt handler, which
    lets in whatever the port carries.
  \<^item> \<open>VpcdProcess\<close> (\<^verbatim>\<open>dialVPCD\<close>, \<^verbatim>\<open>serveRPC\<close>), \<open>SshServer\<close> (\<^verbatim>\<open>start\<close>, \<^verbatim>\<open>handleChannels\<close>,
    \<^verbatim>\<open>handleChannel\<close>, \<^verbatim>\<open>handleSession\<close>, \<^verbatim>\<open>handleTerminal\<close>): the
    endless loops, as functions of the outcomes of the calls they wait for. The second has every goroutine of the
    SSH server, with a function for its next turn, and a step relation that lets any of them take it; what they do
    is a run of the device of \<open>System\<close>.
  \<^item> This theory states what holds of the whole device.

  \<^bold>\<open>Conventions.\<close> An operation maps a state to \<^term>\<open>Some\<close> result and state, or to \<^term>\<open>None\<close> when
  the code panics or ends the process; Go errors are values (\<open>goerr option\<close>). Machine integers are
  words (\<open>int\<close> has 32 bits where that matters). Hardware and packages that are not in the repository
  are the fields of one extensible record of library functions, \<open>cryptolib\<close> up to \<open>bootlib\<close> (and \<open>board\<close>); what is relied
  on is stated by \<open>cipher_ok\<close>, \<open>apdu_ok\<close>, \<open>pgp_ok\<close>, \<open>entity_ok\<close>, \<open>usb_ok\<close>, \<open>fidati_ok\<close> and \<open>wrong_passphrase_keeps\<close>, all satisfied
  by the sample instances. Functions are total without fuel: loops over slices are structural, and the other
  ones have a measure (cipher blocks, bytes left on a connection, lines left on a terminal).

  \<^bold>\<open>What the theorems show.\<close> For the card: passphrase tries, locking and its limits, what each
  operation answers on every branch and when the firmware panics, that data objects and keys read
  back. For sealed storage: what is sealed opens again, and nothing else does. For the reader and the
  virtual reader: answers match requests, exactly once and in order, and connections end. For the
  other components: their contracts and the failures they have. For the whole: the bundler's output is well typed and
  ends up in the card of the device it was wrapped for; the invariant, the blocked state
  and the sealed state survive every interleaving of events; every run refines the PIN machine, whose
  guesses are exactly the passphrases its events present, so a locked key stays locked until its own passphrase is sent or typed, and the
  tries do not go up without one of the two; every schedule of the SSH server's goroutines is such a run; the power state is consistent and an awake device can always sleep; the
  reader never wedges; clients without the authorized key achieve nothing; the board is
  secured before the first interrupt, and only interrupts of the started port bring it anything.

  \<^bold>\<open>Contracts.\<close> A card operation satisfies \<open>card_handler\<close> (identity, invariant, LED, blocked counter,
  power); one that never unlocks satisfies \<open>quiet_handler\<close>, whose relation \<open>quiet_step\<close> also says that
  each slot keeps its key or has it replaced by the copy it was loaded with. \<open>card_moves\<close> closes
  \<open>Verify\<close> and the quiet steps, \<open>sys_moves\<close> adds initialization, and \<open>card_host\<close> is any program whose
  steps are such moves: the device, the endpoint pair, the virtual card's process.

  \<^bold>\<open>Interleaving.\<close> Events are atomic in the model: a transfer, a timer, one turn of a goroutine of
  the SSH server, which goes from one point where it waits for its client to the next. A console command with the
  lines it reads is one turn. The code runs all this on cooperatively
  scheduled goroutines of one core and takes the card's mutex in \<^verbatim>\<open>Wake\<close> only; finer interleavings inside
  one command are not modelled. The event \<open>Terminal\<close> of \<open>System\<close> is a terminal served without
  interruption; the goroutines produce it with no line to read, and a \<open>Line\<close> for each line.

  \<^bold>\<open>Not modelled.\<close> What the drivers do with the calls they get (\<open>Board\<close> records the calls); log
  output, which \<^verbatim>\<open>printk\<close> drops on the device; the TCP and SSH transport and the Unix socket of \<^verbatim>\<open>serveRPC\<close>,
  whose connections, channels and errors are inputs of the loops; and the text of the generated Go file (the model
  has its assignments). The LED fields of the card hold what the LED was last asked to show; outside
  the device (\<open>led_stubs.go\<close>) the request is only logged. The build files and documents are not code of the program.
\<close>

section \<open>Properties of the whole device\<close>

text \<open>
  C1. In every state the running device reaches, by any interleaving of USB transfers, timer
  expirations, console sessions and U2F activity, an initialized card satisfies its invariant and
  its blue LED is lit exactly when its signature or its decryption key is unlocked (a private copy of the
  authentication key does not count); a card that is not initialized has no key selected, no
  passphrase cached for signing or deciphering, and no tries.
\<close>

theorem device_invariant:
  assumes "gokey_main L k hw s = Some g" and "run L g evs g'" and "pgp_ok L"
    and "\<forall>armored ent. decodeArmoredKey L armored = (Some ent, None) \<longrightarrow> entity_ok ent"
  shows "system_ok (g_card g')"
  using device.reach_ok [OF run_reach [OF assms(2)] assms(3) _ assms(4)] boot_system_ok [OF assms(1,4)]
  by (simp add: g_card_def)

definition ssh_only_keys :: keys where
  "ssh_only_keys = keys_zero\<lparr>k_pgpSecretKey := [1], k_sshPublicKey := [9]\<rparr>"

lemma ssh_only_boot:
  "\<exists>g. gokey_main sample_boot ssh_only_keys sample_hw 0 = Some g"
  by (rule sample_boot_main) (simp_all add: ssh_only_keys_def keys_zero_def)

text \<open>A run: the host asks for the slot status and takes the answer.\<close>

lemma ssh_only_run:
  assumes "gokey_main sample_boot ssh_only_keys sample_hw 0 = Some g"
  shows "\<exists>g'. run sample_boot g [UsbIn []] g'"
proof -
  have "running g" "g_ccid g" "g_queue g = None"
    using gokey_main_cases [OF assms] by (simp_all add: running_def ssh_only_keys_def) metis+
  then have "step sample_boot g (UsbIn []) (set_reader (g_reader g) g)"
    by (intro step.usb_in) (simp_all add: CCIDTx_def g_reader_def)
  then show ?thesis
    using run.snoc [OF run.start] by fastforce
qed

theorem device_invariant_witness:
  "\<exists>g g'. gokey_main sample_boot ssh_only_keys sample_hw 0 = Some g \<and>
     run sample_boot g [UsbIn []] g' \<and> system_ok (g_card g')"
proof -
  have "\<forall>armored ent. decodeArmoredKey sample_boot armored = (Some ent, None) \<longrightarrow> entity_ok ent"
    using sample_entity_ok by simp
  moreover obtain g g' where
    "gokey_main sample_boot ssh_only_keys sample_hw 0 = Some g" "run sample_boot g [UsbIn []] g'"
    using ssh_only_boot ssh_only_run by blast
  ultimately show ?thesis
    using device_invariant [OF _ _ sample_boot_pgp] by blast
qed

text \<open>
  C5. A device built for SSH-only unlocking keeps its card sealed until an authorized client
  connects: if the card is ever initialized, some console session came before it, and its client authenticated
  with the one key bundled for it. As long as there is none, the card holds the wrapped key
  as bundled.
\<close>

theorem sealed_until_authorized:
  assumes "gokey_main L k hw s = Some g" and "\<not> k_initAtBoot k" and "k_pgpSecretKey k \<noteq> []"
    and "run L g evs g'"
  shows "(\<exists>ev \<in> set evs. \<exists>key. client ev = Some key \<and> ParseAuthorizedKey L (k_sshPublicKey k) = (key, None)) \<or>
    (\<not> c_initialized (g_card g') \<and> c_ArmoredKey (g_card g') = k_pgpSecretKey k)"
proof (cases "\<forall>ev \<in> set evs. client ev = None")
  case True
  then have "card_identity (g_card g') = card_identity (g_card g)"
    using card_moves_identity [OF run_no_client [OF assms(4)]] by blast
  then show ?thesis
    using boot_sealed [OF assms(1,2)] assms(3) by (simp add: card_identity_def fresh_def g_card_def)
next
  case False
  then obtain ev key where ev: "ev \<in> set evs" "client ev = Some key"
    by auto
  obtain ok where "g_auth g = Some ok" "ok key"
    using run_client [OF assms(4) ev] by blast
  then have "ParseAuthorizedKey L (k_sshPublicKey k) = (key, None)"
    using gokey_main_cases [OF assms(1)] by metis
  then show ?thesis
    using ev by blast
qed

theorem sealed_until_authorized_witness:
  "\<exists>g g'. gokey_main sample_boot ssh_only_keys sample_hw 0 = Some g \<and>
     run sample_boot g [UsbIn []] g' \<and> \<not> c_initialized (g_card g') \<and> c_ArmoredKey (g_card g') = [1]"
proof -
  obtain g g' where g: "gokey_main sample_boot ssh_only_keys sample_hw 0 = Some g" "run sample_boot g [UsbIn []] g'"
    using ssh_only_boot ssh_only_run by blast
  show ?thesis
    using sealed_until_authorized [OF g(1) _ _ g(2)] g by (auto simp: ssh_only_keys_def keys_zero_def)
qed

text \<open>
  C3. Once the tries are used up they stay so on the whole device: from then on no USB traffic and no
  console session, short of a restart, raises the retry counter or unlocks a locked signature or
  decryption key.
\<close>

theorem device_blocked:
  assumes "run L g evs g'" and "pgp_ok L" and "c_initialized (g_card g)" and "card_inv (g_card g)"
    and "c_errorCounterPW1 (g_card g) = 0"
  shows "c_errorCounterPW1 (g_card g') = 0 \<and>
    (\<forall>sk \<in> {c_Sig (g_card g), c_Dec (g_card g)}. slot_locked (g_card g) sk \<longrightarrow> slot_locked (g_card g') sk)"
  by (rule device.reach_blocked [OF run_reach [OF assms(1)] assms(2-5)])

text \<open>The sample card with its tries used up in a running device.\<close>

definition blocked_device :: gokey where
  "blocked_device = \<lparr>g_con = sample_console blocked_card, g_queue = None, g_ccid = True,
     g_auth = Some (\<lambda>key. key = [9]), g_usb = blank_device, g_port = USB1\<rparr>"

lemma blocked_device_simps:
  "g_card blocked_device = blocked_card" "running blocked_device" "g_auth blocked_device = Some (\<lambda>key. key = [9])"
  "g_con blocked_device = sample_console blocked_card"
  by (simp_all add: blocked_device_def g_card_def running_def sample_console_def)

lemma blocked_device_run:
  "\<exists>g'. run sample_boot blocked_device [Terminal [9] [] [(''unlock all'', None), (''wrong'', None)]] g'"
proof -
  have "card_inv blocked_card" and "Initialized blocked_card"
    by (simp_all add: blocked_card_inv) (simp add: Initialized_def blocked_card_def)
  moreover obtain err c' where "verify_all sample_boot PW_VERIFY (str_bytes ''wrong'') (lock_pws ''all'') blocked_card = Some (err, c')"
    using verify_all_returns [OF sample_boot_pgp] calculation(1) by blast
  ultimately show ?thesis
    using unlock_all_run [of blocked_device "\<lambda>key. key = [9]" "[9]" sample_boot "''wrong''"] blocked_device_simps
    by fastforce
qed

theorem device_blocked_witness:
  "\<exists>g'. run sample_boot blocked_device [Terminal [9] [] [(''unlock all'', None), (''wrong'', None)]] g' \<and>
     c_errorCounterPW1 (g_card g') = 0 \<and> slot_locked (g_card g') (Some 0)"
proof -
  obtain g' where run: "run sample_boot blocked_device [Terminal [9] [] [(''unlock all'', None), (''wrong'', None)]] g'"
    using blocked_device_run by blast
  have "c_initialized blocked_card" "slot_locked blocked_card (Some 0)"
    by (simp_all add: blocked_card_def slot_locked_def subkey_priv_def sample_key_defs)
  then show ?thesis
    using device_blocked [OF run sample_boot_pgp] run blocked_card_inv by (auto simp: blocked_device_simps)
qed

text \<open>
  C11. The reader never wedges: in every reachable state one IN transfer empties the endpoint, after which the
  next request is accepted; unless handling it panics or fails, the very next IN transfer
  carries its answer, and no other data, and leaves the endpoint ready again.
\<close>

theorem usb_request_answered:
  assumes "gokey_main L k hw s = Some g0" and "run L g0 evs g" and "running g" and "k_pgpSecretKey k \<noteq> []"
  shows "\<exists>inn g1. step L g (UsbIn inn) g1 \<and> g_queue g1 = None \<and>
    (\<forall>req res c'. Rx L req (g_card g1) = Some ((res, None), c') \<longrightarrow>
       (\<exists>g2. step L g1 (UsbOut req) g2 \<and> g_card g2 = c' \<and>
          (\<exists>g3. step L g2 (UsbIn res) g3) \<and>
          (\<forall>out g3. step L g2 (UsbIn out) g3 \<longrightarrow> out = res \<and> g_queue g3 = None \<and> g_card g3 = c')))"
proof -
  have ccid: "g_ccid g"
    using run_auth [OF assms(2)] gokey_main_cases [OF assms(1)] assms(4) by metis
  obtain inn u where tx: "CCIDTx (g_reader g) = (inn, u)"
    by (cases "CCIDTx (g_reader g)")
  define g1 where "g1 = set_reader u g"
  have "u_queue u = None"
    using tx by (auto simp: CCIDTx_def split: option.splits)
  then have g1: "g_queue g1 = None" "running g1" "g_ccid g1"
    using ccid assms(3) by (simp_all add: g1_def set_reader_def set_card_def running_def)
  have "\<exists>g2. step L g1 (UsbOut req) g2 \<and> g_card g2 = c' \<and> g_queue g2 = Some res \<and> running g2 \<and> g_ccid g2"
    if "Rx L req (g_card g1) = Some ((res, None), c')" for req res c'
  proof -
    let ?u = "(g_reader g1)\<lparr>u_card := c', u_queue := Some res\<rparr>"
    have "CCIDRx L req (g_reader g1) = Some (None, ?u)"
      using that by (simp add: CCIDRx_def)
    then have "step L g1 (UsbOut req) (set_reader ?u g1)"
      using g1 by (intro step.usb_out)
    then show ?thesis
      using g1 by (intro exI [of _ "set_reader ?u g1"]) (simp_all add: set_reader_def set_card_def running_def g_card_def)
  qed
  moreover have "(\<exists>g3. step L g2 (UsbIn res) g3) \<and>
      (\<forall>out g3. step L g2 (UsbIn out) g3 \<longrightarrow> out = res \<and> g_queue g3 = None \<and> g_card g3 = g_card g2)"
    if "g_queue g2 = Some res" "running g2" "g_ccid g2" for g2 res
  proof -
    have tx2: "CCIDTx (g_reader g2) = (res, (g_reader g2)\<lparr>u_queue := None\<rparr>)"
      using that(1) by (simp add: CCIDTx_def g_reader_def)
    show ?thesis
      using step.usb_in [OF that(2,3) tx2]
      by (auto elim!: step_UsbInE simp: tx2 set_reader_def) (simp add: g_card_def set_card_def g_reader_def)
  qed
  ultimately have "\<exists>g2. step L g1 (UsbOut req) g2 \<and> g_card g2 = c' \<and> (\<exists>g3. step L g2 (UsbIn res) g3) \<and>
      (\<forall>out g3. step L g2 (UsbIn out) g3 \<longrightarrow> out = res \<and> g_queue g3 = None \<and> g_card g3 = c')"
    if "Rx L req (g_card g1) = Some ((res, None), c')" for req res c'
    using that by blast
  moreover have "step L g (UsbIn inn) g1"
    unfolding g1_def using assms(3) ccid tx by (rule step.usb_in)
  ultimately show ?thesis
    using g1(1) by blast
qed

theorem usb_request_answered_witness:
  "\<exists>g0 g1 g2 g3 res. gokey_main sample_boot ssh_only_keys sample_hw 0 = Some g0 \<and>
     step sample_boot g1 (UsbOut [0x65, 0, 0, 0, 0, 3, 7, 0, 0, 0]) g2 \<and>
     step sample_boot g2 (UsbIn res) g3 \<and> res = [0x81, 0, 0, 0, 0, 3, 7, 0, 0, 0] \<and> g_queue g3 = None"
proof -
  let ?req = "[0x65, 0, 0, 0, 0, 3, 7, 0, 0, 0] :: bytes" and ?res = "[0x81, 0, 0, 0, 0, 3, 7, 0, 0, 0] :: bytes"
  obtain g0 where g0: "gokey_main sample_boot ssh_only_keys sample_hw 0 = Some g0"
    using ssh_only_boot by blast
  have "running g0"
    using gokey_main_cases [OF g0] by (simp add: running_def) metis
  moreover have "Rx sample_boot ?req c = Some ((?res, None), c)" for c
    by (simp add: Rx_def ccid_read_handle_def read_rfu3_msg.simps GetSlotStatus_Handle_def
        Serialize_SlotStatus_def put_msg_def le_put32_def join32_def ccid_msg.defs rfu3_msg.defs)
  ultimately show ?thesis
    using usb_request_answered [OF g0 run.start [of sample_boot g0]] g0 by (simp add: ssh_only_keys_def) metis
qed

text \<open>
  C12. Power management over the whole device: in every state it reaches, an awake card runs at full clock and
  has exactly one sleep timer pending, however its wake-ups by USB requests and SSH connections
  interleave; that timer can always fire, and puts it to sleep at low clock; a card that is
  asleep has no timer pending.
\<close>

theorem device_power:
  assumes "gokey_main L k hw s = Some g0" and "run L g0 evs g" and "running g"
  shows "if c_awake (g_card g)
     then c_freq_max (g_card g) \<and> c_sleep_timers (g_card g) = 1 \<and>
       (\<exists>g1. step L g SleepTimeout g1 \<and> \<not> c_awake (g_card g1) \<and> \<not> c_freq_max (g_card g1) \<and>
          c_sleep_timers (g_card g1) = 0)
     else c_sleep_timers (g_card g) = 0 \<and> \<not> (\<exists>g1. step L g SleepTimeout g1)"
proof -
  have ok: "power_ok (g_card g)"
    using device.reach_power [OF run_reach [OF assms(2)]] boot_power_ok [OF assms(1)] by (simp add: g_card_def)
  show ?thesis
  proof (cases "c_awake (g_card g)")
    case True
    then have "0 < c_sleep_timers (g_card g)"
      using ok by (simp add: power_ok_def)
    from step.sleep [OF assms(3) this] True ok show ?thesis
      by (auto simp: power_ok_def sleep_timeout_def intro!: exI)
  next
    case False
    with ok show ?thesis
      by (auto simp: power_ok_def elim: step_SleepE)
  qed
qed

theorem device_power_witness:
  "\<exists>g0 g. gokey_main sample_boot ssh_only_keys sample_hw 0 = Some g0 \<and> run sample_boot g0 [Accept] g \<and>
     c_freq_max (g_card g) \<and> c_sleep_timers (g_card g) = 1 \<and> (\<exists>g1. step sample_boot g SleepTimeout g1)"
proof -
  obtain g0 where g0: "gokey_main sample_boot ssh_only_keys sample_hw 0 = Some g0"
    using ssh_only_boot by blast
  have "running g0"
    using gokey_main_cases [OF g0] by (simp add: running_def) metis
  moreover have "g_auth g0 \<noteq> None"
    using gokey_main_cases [OF g0] by (simp add: ssh_only_keys_def del: not_None_eq) metis
  ultimately have run: "run sample_boot g0 [Accept] (g0\<lparr>g_con := ssh_accept (g_con g0)\<rparr>)"
    using run.snoc [OF run.start step.accept] by fastforce
  have "running (g0\<lparr>g_con := ssh_accept (g_con g0)\<rparr>)" "c_awake (g_card (g0\<lparr>g_con := ssh_accept (g_con g0)\<rparr>))"
    using \<open>running g0\<close> by (simp_all add: running_def ssh_accept_def Wake_def)
  then show ?thesis
    using device_power [OF g0 run] g0 run by auto
qed

text \<open>
  The virtual card build keeps the card's invariant too: after its start and any sequence of
  reader connections and PKCS\#11 clients.
\<close>

theorem vpcd_process_invariant:
  assumes "vpcd_main L k s = Some c0" and "(vpcd_step L)\<^sup>*\<^sup>* c0 c" and "pgp_ok L"
    and "\<forall>armored ent. decodeArmoredKey L armored = (Some ent, None) \<longrightarrow> entity_ok ent"
  shows "system_ok c"
proof -
  obtain err where "Init L (vpcd_card k s) = Some (err, c0)"
    using assms(1) by (auto simp: vpcd_main_def)
  moreover have "system_ok (vpcd_card k s)"
    by (simp add: system_ok_def vpcd_card_def fresh_def blank_card_def)
  ultimately have "system_ok c0"
    using Init_system_ok assms(4) by blast
  then show ?thesis
    by (rule vpcd_process.reach_ok [OF assms(2,3) _ assms(4)])
qed

theorem vpcd_process_invariant_witness:
  "\<exists>c0. vpcd_main sample_rpc keys_zero 0 = Some c0 \<and> (vpcd_step sample_rpc)\<^sup>*\<^sup>* c0 c0 \<and> system_ok c0"
proof -
  have lib: "decodeArmoredKey sample_rpc a = (Some sample_entity, None)" "pgp_ok sample_rpc" for a
    using sample_decode [of a] sample_lib_pgp
    by (simp_all add: decodeArmoredKey_def sample_rpc_def pgplib.defs pgp_ok_def)
  have "\<exists>c0. Init sample_rpc (vpcd_card keys_zero 0) = Some (None, c0)"
    by (rule sample_entity_Init) (simp_all add: lib vpcd_card_def blank_card_def keys_zero_def)
  then obtain c0 where "vpcd_main sample_rpc keys_zero 0 = Some c0"
    by (auto simp: vpcd_main_def)
  then show ?thesis
    using vpcd_process_invariant [OF _ rtranclp.rtrancl_refl lib(2)] sample_entity_ok lib(1) by auto
qed

end
